theory Spec2Isabelle
  imports Complex_Main "HOL-Library.Sublist"
begin

section \<open>Data model of the Epic Games plugin\<close>

text \<open>
  The plugin object of \<^verbatim>\<open>src/unnamed/part_000\<close> keeps its state in
  \<^verbatim>\<open>this.state\<close> (agents, violations, settings, enabled) and talks to two collaborators:
  the agent service (\<^verbatim>\<open>createPolicy\<close>, \<^verbatim>\<open>updatePolicy\<close>, events) and the Allow2 service
  (\<^verbatim>\<open>getChildState\<close>, \<^verbatim>\<open>stateChange\<close>). JavaScript objects and arrays are references, and
  the handlers registered in \<^verbatim>\<open>onLoad\<close> share arrays and agent objects, so the model keeps an
  explicit store: agent objects live in \<open>objs\<close>, arrays of agent references in \<open>arrs\<close>, and
  an address is an index into the store. Allocation appends to the store.

  The quota and the check interval are modelled as \<open>int\<close>; the limit of a query, whose
  sign and fraction matter, as a JavaScript value. A string is the list of the bytes of its
  UTF-8 form; the strings compared with it in the code are ASCII. A property that is only
  tested for being set (\<^verbatim>\<open>x || d\<close>, \<^verbatim>\<open>x === y\<close>, \<^verbatim>\<open>if (x)\<close>) is an \<open>option\<close>, with
  \<open>None\<close> for \<^verbatim>\<open>undefined\<close> and \<^verbatim>\<open>null\<close> alike.
  Every handler is modelled as one atomic step: the interleaving of two handlers at an
  \<^verbatim>\<open>await\<close> is not part of the model.
\<close>

type_synonym addr = nat

record agent =
  a_id :: string
  a_hostname :: string
  a_platform :: string
  a_online :: bool
  a_childId :: "string option"

record allow2State =
  paused :: bool
  quota :: int

record settings =
  monitorFortnite :: bool
  monitorAllGames :: bool
  checkInterval :: int
  enableNotifications :: bool

text \<open>The argument of \<^verbatim>\<open>epic:updateSettings\<close>: any subset of the settings' keys.\<close>

record newSettings =
  n_monitorFortnite :: "bool option"
  n_monitorAllGames :: "bool option"
  n_checkInterval :: "int option"
  n_enableNotifications :: "bool option"

text \<open>
  The policy object handed to \<^verbatim>\<open>createPolicy\<close>. The \<^verbatim>\<open>actions\<close> object and the
  \<^verbatim>\<open>plugin\<close> and \<^verbatim>\<open>category\<close> metadata are the same constants in every policy and are left
  out; \<open>processAlternatives\<close> and \<open>metaType\<close> are absent in some policies.
\<close>

record policy =
  processName :: string
  processAlternatives :: "string list option"
  allowed :: bool
  p_checkInterval :: int
  metaType :: "string option"
  metaPlatform :: string

text \<open>
  The calls of the agent service API: \<^verbatim>\<open>createPolicy(agentId, policy)\<close>,
  \<^verbatim>\<open>updatePolicy(agentId, {processName, allowed})\<close> and \<^verbatim>\<open>deletePolicy(agentId, processName)\<close>
  (the last is only ever called by \<^verbatim>\<open>EpicMonitor.stopMonitoring\<close>).
\<close>

datatype call =
    CreatePolicy string policy
  | UpdatePolicy string string bool
  | DeletePolicy string string

text \<open>
  The agent service is outside the repository. What the plugin can observe of a call is
  whether its promise rejects; a service is modelled by that decision, as a function of the
  calls issued so far and of the call at hand (\<open>True\<close>: the call rejects).
\<close>

type_synonym service = "call list \<Rightarrow> call \<Rightarrow> bool"

record violationData =
  vd_agentId :: string
  vd_hostname :: "string option"
  vd_processName :: string
  vd_timestamp :: "string option"
  vd_childId :: "string option"

record violation =
  v_id :: string
  v_agentId :: string
  v_agentHostname :: string
  v_processName :: string
  v_timestamp :: string
  v_childId :: "string option"

text \<open>What the plugin sends to the host application through its context.\<close>

datatype message =
    PluginError
  | EpicAgentDiscovered agent
  | EpicAgentLost string
  | EpicViolation violation
  | LogActivity string string string string
  | Notify string

text \<open>The optional callbacks of the context object.\<close>

record host_context =
  has_sendToRenderer :: bool
  has_logActivity :: bool
  has_notify :: bool

text \<open>
  The plugin: the store, \<^verbatim>\<open>this.state\<close> (\<open>state_agents\<close> is the reference held in
  \<^verbatim>\<open>this.state.agents\<close>), the reference held in the local constant \<^verbatim>\<open>agents\<close> of
  \<^verbatim>\<open>onLoad\<close> that the \<^verbatim>\<open>stateChange\<close> handler captures, the context, and the two logs of
  what the plugin did: the calls issued to the agent service and the outputs to the host.
\<close>

record plugin =
  objs :: "agent list"
  arrs :: "addr list list"
  state_agents :: addr
  agents :: addr
  violations :: "violation list"
  settings :: settings
  enabled :: bool
  ctx :: host_context
  trace :: "call list"
  out :: "message list"

text \<open>The state handed to \<^verbatim>\<open>onLoad\<close> and returned by \<^verbatim>\<open>getState\<close>.\<close>

record persisted =
  ps_enabled :: bool
  ps_agents :: "agent list"
  ps_violations :: "violation list"
  ps_settings :: settings

datatype outcome = Returned | Threw

datatype reply =
    Success
  | SuccessSettings settings
  | NotFound string
  | Rejected

section \<open>Store and array primitives\<close>

definition deref :: "plugin \<Rightarrow> addr \<Rightarrow> agent" where
  "deref s a = objs s ! a"

text \<open>The agent objects of the array held in \<^verbatim>\<open>this.state.agents\<close>, in order.\<close>

definition stateAgents :: "plugin \<Rightarrow> agent list" where
  "stateAgents s = map (deref s) (arrs s ! state_agents s)"

text \<open>The agent objects of the array held in the captured constant \<^verbatim>\<open>agents\<close>.\<close>

definition capturedAgents :: "plugin \<Rightarrow> agent list" where
  "capturedAgents s = map (deref s) (arrs s ! agents s)"

text \<open>Every reference of the plugin points into the store.\<close>

definition wellFormed :: "plugin \<Rightarrow> bool" where
  "wellFormed s \<longleftrightarrow>
     state_agents s < length (arrs s) \<and> agents s < length (arrs s) \<and>
     list_all (list_all (\<lambda>a. a < length (objs s))) (arrs s)"

text \<open>
  \<^verbatim>\<open>Array.prototype.slice(start)\<close> with an integer start: a negative start counts from the
  end and is clamped at the first element, a start beyond the end gives the empty array.
\<close>

definition slice :: "int \<Rightarrow> 'a list \<Rightarrow> 'a list" where
  "slice start xs =
     (let len = int (length xs);
          k = (if start < 0 then max (len + start) 0 else min start len)
      in drop (nat k) xs)"

text \<open>
  The values that the limit of a query can have: \<^verbatim>\<open>undefined\<close>, \<^verbatim>\<open>null\<close> or a number (a
  limit of another type is turned into one of these numbers by the unary minus applied to
  it). Unary minus turns \<^verbatim>\<open>null\<close> into zero and \<^verbatim>\<open>undefined\<close> into \<^verbatim>\<open>NaN\<close>.
\<close>

datatype jsvalue = Undefined | Null | NaN | PosInfinity | NegInfinity | Number real

definition negate :: "jsvalue \<Rightarrow> jsvalue" where
  "negate v =
     (case v of
        Undefined \<Rightarrow> NaN
      | Null \<Rightarrow> Number 0
      | NaN \<Rightarrow> NaN
      | PosInfinity \<Rightarrow> NegInfinity
      | NegInfinity \<Rightarrow> PosInfinity
      | Number x \<Rightarrow> Number (- x))"

text \<open>
  \<^verbatim>\<open>ToIntegerOrInfinity\<close>, which \<^verbatim>\<open>slice\<close> applies to its argument: \<^verbatim>\<open>NaN\<close> becomes 0, a
  finite number is truncated towards zero, the infinities stay.
\<close>

datatype start = NegInf | Start int | PosInf

definition toIntegerOrInfinity :: "jsvalue \<Rightarrow> start" where
  "toIntegerOrInfinity v =
     (case v of
        Undefined \<Rightarrow> Start 0
      | Null \<Rightarrow> Start 0
      | NaN \<Rightarrow> Start 0
      | PosInfinity \<Rightarrow> PosInf
      | NegInfinity \<Rightarrow> NegInf
      | Number x \<Rightarrow> Start (if x < 0 then - \<lfloor>- x\<rfloor> else \<lfloor>x\<rfloor>))"

text \<open>
  \<^verbatim>\<open>Array.prototype.slice\<close> on any argument: from minus infinity the whole array, from
  plus infinity the empty array, else as for the integer.
\<close>

definition sliceFrom :: "jsvalue \<Rightarrow> 'a list \<Rightarrow> 'a list" where
  "sliceFrom v xs =
     (case toIntegerOrInfinity v of
        NegInf \<Rightarrow> xs
      | Start i \<Rightarrow> slice i xs
      | PosInf \<Rightarrow> [])"

text \<open>
  \<^verbatim>\<open>String.prototype.toLowerCase\<close> is the Unicode lower-casing of the JavaScript runtime,
  which is not part of the repository: the model takes it as a parameter
  \<open>toLowerCase :: string \<Rightarrow> string\<close> of the functions that call it. What is known of it without
  the Unicode tables is its value on ASCII strings, where the letters A to Z become a to z
  and every other character stays: \<open>asciiLower\<close>.
\<close>

definition isAscii :: "string \<Rightarrow> bool" where
  "isAscii s = list_all (\<lambda>c. (of_char c :: nat) < 128) s"

definition asciiLowerChar :: "char \<Rightarrow> char" where
  "asciiLowerChar c =
     (let n = (of_char c :: nat) in if 65 \<le> n \<and> n \<le> 90 then char_of (n + 32) else c)"

definition asciiLower :: "string \<Rightarrow> string" where
  "asciiLower s = map asciiLowerChar s"

definition lowersAscii :: "(string \<Rightarrow> string) \<Rightarrow> bool" where
  "lowersAscii toLowerCase \<longleftrightarrow> (\<forall>s. isAscii s \<longrightarrow> toLowerCase s = asciiLower s)"

text \<open>\<^verbatim>\<open>s.includes(k)\<close>: \<open>k\<close> occurs in \<open>s\<close> at some position.\<close>

fun str_includes :: "string \<Rightarrow> string \<Rightarrow> bool" where
  "str_includes [] k = (k = [])"
| "str_includes (c # s) k = (prefix k (c # s) \<or> str_includes s k)"

text \<open>\<^verbatim>\<open>x || d\<close> on an optional string: absent and empty strings are falsy.\<close>

definition or_else :: "string option \<Rightarrow> string \<Rightarrow> string" where
  "or_else x d = (case x of None \<Rightarrow> d | Some v \<Rightarrow> if v = [] then d else v)"

text \<open>
  A sequence of awaited service calls inside one \<^verbatim>\<open>try\<close> block: the calls are issued in
  order and the first one that rejects ends the sequence. The result says whether all
  calls resolved, and the log of calls grows by the calls issued.
\<close>

fun awaitAll :: "service \<Rightarrow> call list \<Rightarrow> call list \<Rightarrow> bool \<times> call list" where
  "awaitAll rj [] tr = (True, tr)"
| "awaitAll rj (c # cs) tr =
     (if rj tr c then (False, tr @ [c]) else awaitAll rj cs (tr @ [c]))"

text \<open>\<^verbatim>\<open>context.sendToRenderer?.(...)\<close>\<close>

definition sendToRenderer :: "message \<Rightarrow> plugin \<Rightarrow> plugin" where
  "sendToRenderer m s = (if has_sendToRenderer (ctx s) then s\<lparr>out := out s @ [m]\<rparr> else s)"

section \<open>The process catalog\<close>

record processNames =
  launcher :: "string list"
  games :: "string list"

definition win32Names :: processNames where
  "win32Names = \<lparr>launcher = [''EpicGamesLauncher.exe'', ''EpicWebHelper.exe'',
                             ''UnrealEngineLauncher-Win64-Shipping.exe''],
                 games = [''FortniteClient-Win64-Shipping.exe'', ''FortniteLauncher.exe'',
                          ''RocketLeague.exe'']\<rparr>"

definition darwinNames :: processNames where
  "darwinNames = \<lparr>launcher = [''EpicGamesLauncher'', ''Epic Games Launcher.app''],
                  games = [''Fortnite.app'', ''RocketLeague.app'']\<rparr>"

definition linuxNames :: processNames where
  "linuxNames = \<lparr>launcher = [''EpicGamesLauncher'', ''legendary''],
                 games = [''FortniteClient-Linux-Shipping'', ''RocketLeague'']\<rparr>"

text \<open>
  \<^verbatim>\<open>processNames[platform] || processNames.win32\<close>. The table is an object literal, so for a
  platform string that names a member every object inherits from \<^verbatim>\<open>Object.prototype\<close> the
  lookup yields that member, which is truthy and is returned instead of the win32 entry. It
  has no \<^verbatim>\<open>launcher\<close> property: the result \<open>None\<close> stands for it, and reading
  \<^verbatim>\<open>launcher[0]\<close> from it throws a \<^verbatim>\<open>TypeError\<close>.
\<close>

definition inheritedKeys :: "string list" where
  "inheritedKeys = [''constructor'', ''__proto__'', ''hasOwnProperty'', ''isPrototypeOf'',
     ''propertyIsEnumerable'', ''toLocaleString'', ''toString'', ''valueOf'',
     ''__defineGetter__'', ''__defineSetter__'', ''__lookupGetter__'', ''__lookupSetter__'']"

definition getEpicProcessNames :: "string \<Rightarrow> processNames option" where
  "getEpicProcessNames platform =
     (if platform = ''win32'' then Some win32Names
      else if platform = ''darwin'' then Some darwinNames
      else if platform = ''linux'' then Some linuxNames
      else if platform \<in> set inheritedKeys then None
      else Some win32Names)"

definition epicProcessKeywords :: "string list" where
  "epicProcessKeywords = [''epicgameslauncher'', ''epicwebhelper'', ''unrealengine'',
     ''fortniteclient'', ''fortnitelauncher'', ''rocketleague'', ''legendary'']"

definition isEpicProcess :: "(string \<Rightarrow> string) \<Rightarrow> string \<Rightarrow> bool" where
  "isEpicProcess toLowerCase pn =
     (let lowerProcessName = toLowerCase pn
      in list_ex (\<lambda>keyword. str_includes lowerProcessName keyword) epicProcessKeywords)"

section \<open>Policies\<close>

definition launcherPolicy :: "settings \<Rightarrow> agent \<Rightarrow> processNames \<Rightarrow> policy" where
  "launcherPolicy st a pn =
     \<lparr>processName = hd (launcher pn), processAlternatives = Some (launcher pn),
      allowed = False, p_checkInterval = checkInterval st,
      metaType = None, metaPlatform = a_platform a\<rparr>"

definition gamePolicy :: "settings \<Rightarrow> agent \<Rightarrow> string \<Rightarrow> policy" where
  "gamePolicy st a gameName =
     \<lparr>processName = gameName, processAlternatives = None,
      allowed = False, p_checkInterval = checkInterval st,
      metaType = Some ''game'', metaPlatform = a_platform a\<rparr>"

text \<open>
  \<^verbatim>\<open>configureEpicPolicy\<close>: one create for the launcher, then, when all games are
  monitored, one create per game name; a rejected create is logged and thrown again, which
  the result \<open>False\<close> stands for. So is the \<^verbatim>\<open>TypeError\<close> of an inherited member, which is
  raised in the \<^verbatim>\<open>try\<close> block before the first create.
\<close>

definition configureEpicPolicy :: "service \<Rightarrow> agent \<Rightarrow> plugin \<Rightarrow> bool \<times> plugin" where
  "configureEpicPolicy rj a s =
     (case getEpicProcessNames (a_platform a) of
        None \<Rightarrow> (False, s)
      | Some pn \<Rightarrow>
          (let (ok, tr) = awaitAll rj
                 (CreatePolicy (a_id a) (launcherPolicy (settings s) a pn) #
                  (if monitorAllGames (settings s)
                   then map (\<lambda>gameName.
                               CreatePolicy (a_id a) (gamePolicy (settings s) a gameName))
                            (games pn)
                   else [])) (trace s)
           in (ok, s\<lparr>trace := tr\<rparr>)))"

definition epicAllowed :: "allow2State \<Rightarrow> bool" where
  "epicAllowed q \<longleftrightarrow> \<not> paused q \<and> quota q > 0"

text \<open>
  \<^verbatim>\<open>updateEpicPolicy\<close>: one update for the launcher, then one per game name when all games
  are monitored; a rejected update is logged and swallowed, and so is the \<^verbatim>\<open>TypeError\<close> of
  an inherited member, so the function always returns.
\<close>

definition updateEpicPolicy :: "service \<Rightarrow> agent \<Rightarrow> allow2State \<Rightarrow> plugin \<Rightarrow> plugin" where
  "updateEpicPolicy rj a q s =
     (case getEpicProcessNames (a_platform a) of
        None \<Rightarrow> s
      | Some pn \<Rightarrow>
          (let (ok, tr) = awaitAll rj
                 (UpdatePolicy (a_id a) (hd (launcher pn)) (epicAllowed q) #
                  (if monitorAllGames (settings s)
                   then map (\<lambda>gameName. UpdatePolicy (a_id a) gameName (epicAllowed q))
                            (games pn)
                   else [])) (trace s)
           in s\<lparr>trace := tr\<rparr>))"

section \<open>Violations\<close>

text \<open>
  The identifier of a violation is built from the clock and a random number, and a missing
  timestamp is read from the clock: both are inputs of the model (\<open>newId\<close>, \<open>now\<close>).
\<close>

definition mkViolation :: "string \<Rightarrow> string \<Rightarrow> violationData \<Rightarrow> violation" where
  "mkViolation newId now vd =
     \<lparr>v_id = newId, v_agentId = vd_agentId vd,
      v_agentHostname = or_else (vd_hostname vd) ''Unknown'',
      v_processName = vd_processName vd,
      v_timestamp = or_else (vd_timestamp vd) now,
      v_childId = vd_childId vd\<rparr>"

definition handleViolation :: "string \<Rightarrow> string \<Rightarrow> violationData \<Rightarrow> plugin \<Rightarrow> plugin" where
  "handleViolation newId now vd s =
     (let v = mkViolation newId now vd;
          pushed = violations s @ [v];
          s1 = s\<lparr>violations := (if length pushed > 100 then slice (- 100) pushed else pushed)\<rparr>;
          s2 = (if has_sendToRenderer (ctx s1) then s1\<lparr>out := out s1 @ [EpicViolation v]\<rparr>
                else s1);
          s3 = (if has_logActivity (ctx s2)
                then s2\<lparr>out := out s2 @
                       [LogActivity (''Epic Games was blocked on '' @ v_agentHostname v)
                          (v_timestamp v) (vd_processName vd) (vd_agentId vd)]\<rparr>
                else s2)
      in if enableNotifications (settings s3) \<and> has_notify (ctx s3)
         then s3\<lparr>out := out s3 @ [Notify (''Epic Games was blocked on '' @ v_agentHostname v)]\<rparr>
         else s3)"

section \<open>Event handlers registered by onLoad\<close>

text \<open>The \<^verbatim>\<open>for\<close> loop over the agents of a child, one \<^verbatim>\<open>updateEpicPolicy\<close> each.\<close>

fun updateEach :: "service \<Rightarrow> allow2State \<Rightarrow> agent list \<Rightarrow> plugin \<Rightarrow> plugin" where
  "updateEach rj q [] s = s"
| "updateEach rj q (a # as) s = updateEach rj q as (updateEpicPolicy rj a q s)"

text \<open>
  \<^verbatim>\<open>stateChange\<close>: the handler filters the array held in the captured constant
  \<^verbatim>\<open>agents\<close>, not \<^verbatim>\<open>this.state.agents\<close>.
\<close>

definition on_stateChange :: "service \<Rightarrow> string \<Rightarrow> allow2State \<Rightarrow> plugin \<Rightarrow> plugin" where
  "on_stateChange rj childId newState s =
     (let childAgents = filter (\<lambda>a. a_childId a = Some childId) (capturedAgents s)
      in updateEach rj newState childAgents s)"

text \<open>
  \<^verbatim>\<open>agentDiscovered\<close>: the handler receives a reference to an agent object. The reference
  is pushed onto the array of \<^verbatim>\<open>this.state.agents\<close> in place, and the agent is configured;
  when that throws, the handler ends there. \<open>discoveredAt\<close> is the handler on a reference
  \<open>a\<close> into the store.
\<close>

definition discoveredAt :: "service \<Rightarrow> addr \<Rightarrow> plugin \<Rightarrow> outcome \<times> plugin" where
  "discoveredAt rj a s =
     (let s1 = s\<lparr>arrs := (arrs s)[state_agents s := arrs s ! state_agents s @ [a]]\<rparr>;
          (ok, s2) = configureEpicPolicy rj (deref s a) s1
      in if ok then (Returned, sendToRenderer (EpicAgentDiscovered (deref s a)) s2)
         else (Threw, s2))"

text \<open>
  An event that carries an agent object the plugin has not seen: the object enters the store
  at a fresh address, and the handler runs on that reference. An event that delivers again
  an object already in the store is \<open>discoveredAt\<close> on its address.
\<close>

definition on_agentDiscovered :: "service \<Rightarrow> agent \<Rightarrow> plugin \<Rightarrow> outcome \<times> plugin" where
  "on_agentDiscovered rj ag s = discoveredAt rj (length (objs s)) (s\<lparr>objs := objs s @ [ag]\<rparr>)"

text \<open>
  \<^verbatim>\<open>agentLost\<close>: \<^verbatim>\<open>filter\<close> builds a new array, and \<^verbatim>\<open>this.state.agents\<close> is set to it.
\<close>

definition on_agentLost :: "string \<Rightarrow> plugin \<Rightarrow> plugin" where
  "on_agentLost agentId s =
     (let kept = filter (\<lambda>a. a_id (deref s a) \<noteq> agentId) (arrs s ! state_agents s);
          s1 = s\<lparr>arrs := arrs s @ [kept], state_agents := length (arrs s)\<rparr>
      in sendToRenderer (EpicAgentLost agentId) s1)"

definition on_violation ::
  "(string \<Rightarrow> string) \<Rightarrow> string \<Rightarrow> string \<Rightarrow> violationData \<Rightarrow> plugin \<Rightarrow> plugin" where
  "on_violation toLowerCase newId now vd s =
     (if isEpicProcess toLowerCase (vd_processName vd) then handleViolation newId now vd s
      else s)"

section \<open>The handlers of the control surface\<close>

text \<open>
  \<^verbatim>\<open>epic:getViolations\<close>. The default \<^verbatim>\<open>limit = 50\<close> of the destructuring replaces
  \<^verbatim>\<open>undefined\<close> only; the handler then computes \<^verbatim>\<open>slice(-limit).reverse()\<close>.
\<close>

definition ipc_getViolations :: "jsvalue \<Rightarrow> plugin \<Rightarrow> violation list" where
  "ipc_getViolations given s =
     (let limit = (case given of Undefined \<Rightarrow> Number 50 | v \<Rightarrow> v)
      in rev (sliceFrom (negate limit) (violations s)))"

definition ipc_clearViolations :: "plugin \<Rightarrow> reply \<times> plugin" where
  "ipc_clearViolations s = (Success, s\<lparr>violations := []\<rparr>)"

text \<open>The object spread \<^verbatim>\<open>{ ...this.state.settings, ...newSettings }\<close>.\<close>

definition mergeSettings :: "settings \<Rightarrow> newSettings \<Rightarrow> settings" where
  "mergeSettings st ns =
     \<lparr>monitorFortnite = (case n_monitorFortnite ns of None \<Rightarrow> monitorFortnite st | Some b \<Rightarrow> b),
      monitorAllGames = (case n_monitorAllGames ns of None \<Rightarrow> monitorAllGames st | Some b \<Rightarrow> b),
      checkInterval = (case n_checkInterval ns of None \<Rightarrow> checkInterval st | Some i \<Rightarrow> i),
      enableNotifications =
        (case n_enableNotifications ns of None \<Rightarrow> enableNotifications st | Some b \<Rightarrow> b)\<rparr>"

text \<open>The truth value of an optional number in a condition: absent and zero are falsy.\<close>

definition truthy :: "int option \<Rightarrow> bool" where
  "truthy x = (case x of None \<Rightarrow> False | Some n \<Rightarrow> n \<noteq> 0)"

text \<open>The \<^verbatim>\<open>for\<close> loop that configures agents one by one; a throw ends it.\<close>

fun configureEach :: "service \<Rightarrow> agent list \<Rightarrow> plugin \<Rightarrow> bool \<times> plugin" where
  "configureEach rj [] s = (True, s)"
| "configureEach rj (a # as) s =
     (let (ok, s1) = configureEpicPolicy rj a s
      in if ok then configureEach rj as s1 else (False, s1))"

definition ipc_updateSettings :: "service \<Rightarrow> newSettings \<Rightarrow> plugin \<Rightarrow> reply \<times> plugin" where
  "ipc_updateSettings rj ns s =
     (let s1 = s\<lparr>settings := mergeSettings (settings s) ns\<rparr>
      in if truthy (n_checkInterval ns)
         then (let (ok, s2) = configureEach rj (stateAgents s1) s1
               in if ok then (SuccessSettings (settings s2), s2) else (Rejected, s2))
         else (SuccessSettings (settings s1), s1))"

text \<open>
  \<^verbatim>\<open>epic:linkAgent\<close>: \<^verbatim>\<open>find\<close> gives the first agent object with the identifier; its
  \<^verbatim>\<open>childId\<close> is set in place, the child's state is fetched (\<open>None\<close>: the fetch rejects)
  and the agent's policies are updated.
\<close>

definition ipc_linkAgent ::
  "service \<Rightarrow> (string \<Rightarrow> allow2State option) \<Rightarrow> string \<Rightarrow> string \<Rightarrow> plugin \<Rightarrow> reply \<times> plugin" where
  "ipc_linkAgent rj getChildState agentId childId s =
     (case find (\<lambda>a. a_id (deref s a) = agentId) (arrs s ! state_agents s) of
        None \<Rightarrow> (NotFound ''Agent not found'', s)
      | Some a \<Rightarrow>
          (let s1 = s\<lparr>objs := (objs s)[a := (deref s a)\<lparr>a_childId := Some childId\<rparr>]\<rparr>
           in case getChildState childId of
                None \<Rightarrow> (Rejected, s1)
              | Some allow2State \<Rightarrow> (Success, updateEpicPolicy rj (deref s1 a) allow2State s1)))"

definition ipc_unlinkAgent :: "string \<Rightarrow> plugin \<Rightarrow> reply \<times> plugin" where
  "ipc_unlinkAgent agentId s =
     (case find (\<lambda>a. a_id (deref s a) = agentId) (arrs s ! state_agents s) of
        None \<Rightarrow> (NotFound ''Agent not found'', s)
      | Some a \<Rightarrow> (Success, s\<lparr>objs := (objs s)[a := (deref s a)\<lparr>a_childId := None\<rparr>]\<rparr>))"

section \<open>Plugin initialisation\<close>

definition defaultSettings :: settings where
  "defaultSettings = \<lparr>monitorFortnite = True, monitorAllGames = True,
                       checkInterval = 30000, enableNotifications = True\<rparr>"

definition defaultState :: persisted where
  "defaultState = \<lparr>ps_enabled = False, ps_agents = [], ps_violations = [],
                    ps_settings = defaultSettings\<rparr>"

datatype loaded =
    NoAgentService "message list"
  | LoadThrew plugin
  | Loaded plugin

text \<open>
  \<^verbatim>\<open>onLoad(loadedState, context)\<close>; \<open>listed\<close> is what \<^verbatim>\<open>agentService.listAgents()\<close>
  resolves to, \<open>None\<close> when the context has no agent service. The listed array is stored in
  \<^verbatim>\<open>this.state.agents\<close> and stays in the constant \<^verbatim>\<open>agents\<close>: both hold the same reference.
  The handlers above are registered only when every listed agent was configured.
\<close>

definition onLoad ::
  "service \<Rightarrow> persisted option \<Rightarrow> host_context \<Rightarrow> agent list option \<Rightarrow> loaded" where
  "onLoad rj loadedState context listed =
     (let st = (case loadedState of None \<Rightarrow> defaultState | Some l \<Rightarrow> l)
      in case listed of
           None \<Rightarrow> NoAgentService (if has_sendToRenderer context then [PluginError] else [])
         | Some found \<Rightarrow>
             (let s0 = \<lparr>objs = found, arrs = [[0 ..< length found]],
                        state_agents = 0, agents = 0,
                        violations = ps_violations st, settings = ps_settings st,
                        enabled = ps_enabled st, ctx = context, trace = [], out = []\<rparr>;
                  (ok, s1) = configureEach rj found s0
              in if ok then Loaded (s1\<lparr>enabled := True\<rparr>) else LoadThrew s1))"

section \<open>The monitor service\<close>

text \<open>
  \<^verbatim>\<open>EpicMonitor.updateQuotaStatus\<close> of \<^verbatim>\<open>src/src/services/EpicMonitor.js\<close>:
  \<open>monitored\<close> is the entry of \<^verbatim>\<open>monitoredProcesses\<close> for the agent (the names of its
  processes), \<open>state\<close> the fetched state of the child. The updates are awaited outside any
  \<^verbatim>\<open>try\<close>, so the first rejection is thrown (\<open>False\<close>).
\<close>

definition updateQuotaStatus ::
  "service \<Rightarrow> string list option \<Rightarrow> string \<Rightarrow> allow2State \<Rightarrow> call list \<Rightarrow> bool \<times> call list" where
  "updateQuotaStatus rj monitored agentId state tr =
     (let allowed = \<not> paused state \<and> quota state > 0
      in case monitored of
           None \<Rightarrow> (True, tr)
         | Some processes \<Rightarrow>
             awaitAll rj (map (\<lambda>name. UpdatePolicy agentId name allowed) processes) tr)"

section \<open>Notions used to state the properties\<close>

text \<open>The calls a handler issued: what the log of calls gained from \<open>s\<close> to \<open>s'\<close>.\<close>

definition issued :: "plugin \<Rightarrow> plugin \<Rightarrow> call list" where
  "issued s s' = drop (length (trace s)) (trace s')"

text \<open>Every call of the list is an update that carries the flag \<open>b\<close>.\<close>

definition updatesWith :: "bool \<Rightarrow> call list \<Rightarrow> bool" where
  "updatesWith b cs =
     list_all (\<lambda>c. case c of UpdatePolicy i p b' \<Rightarrow> b' = b | _ \<Rightarrow> False) cs"

text \<open>The policies of the create calls of a list, in order.\<close>

definition created :: "call list \<Rightarrow> policy list" where
  "created cs = concat (map (\<lambda>c. case c of CreatePolicy i p \<Rightarrow> [p] | _ \<Rightarrow> []) cs)"

definition isCreate :: "call \<Rightarrow> bool" where
  "isCreate c = (case c of CreatePolicy i p \<Rightarrow> True | _ \<Rightarrow> False)"

definition isDelete :: "call \<Rightarrow> bool" where
  "isDelete c = (case c of DeletePolicy i p \<Rightarrow> True | _ \<Rightarrow> False)"

text \<open>
  The creates that \<^verbatim>\<open>configureEpicPolicy\<close> attempts for an agent under given settings:
  none when the platform names an inherited member.
\<close>

definition createCalls :: "settings \<Rightarrow> agent \<Rightarrow> call list" where
  "createCalls st a =
     (case getEpicProcessNames (a_platform a) of
        None \<Rightarrow> []
      | Some pn \<Rightarrow>
          CreatePolicy (a_id a) (launcherPolicy st a pn) #
          (if monitorAllGames st
           then map (\<lambda>gameName. CreatePolicy (a_id a) (gamePolicy st a gameName)) (games pn)
           else []))"

text \<open>The updates that \<^verbatim>\<open>updateEpicPolicy\<close> attempts for an agent.\<close>

definition updateCalls :: "settings \<Rightarrow> agent \<Rightarrow> bool \<Rightarrow> call list" where
  "updateCalls st a b =
     (case getEpicProcessNames (a_platform a) of
        None \<Rightarrow> []
      | Some pn \<Rightarrow>
          UpdatePolicy (a_id a) (hd (launcher pn)) b #
          (if monitorAllGames st
           then map (\<lambda>gameName. UpdatePolicy (a_id a) gameName b) (games pn)
           else []))"

text \<open>
  A platform string that is a key of the table or falls back to the win32 entry: not the
  name of an inherited member.
\<close>

definition knownPlatform :: "string \<Rightarrow> bool" where
  "knownPlatform platform \<longleftrightarrow> platform \<notin> set inheritedKeys"

text \<open>A service that rejects no call.\<close>

definition reliable :: "service \<Rightarrow> bool" where
  "reliable rj \<longleftrightarrow> (\<forall>tr c. \<not> rj tr c)"

text \<open>A run of violation appends, each with its identifier and clock reading.\<close>

fun appendAll :: "(string \<times> string \<times> violationData) list \<Rightarrow> plugin \<Rightarrow> plugin" where
  "appendAll [] s = s"
| "appendAll ((newId, now, vd) # es) s = appendAll es (handleViolation newId now vd s)"

definition mkAll :: "(string \<times> string \<times> violationData) list \<Rightarrow> violation list" where
  "mkAll es = map (\<lambda>(newId, now, vd). mkViolation newId now vd) es"

section \<open>Concrete inputs\<close>

definition agentA :: agent where
  "agentA = \<lparr>a_id = ''A'', a_hostname = ''pc-a'', a_platform = ''win32'', a_online = True,
              a_childId = None\<rparr>"

definition agentB :: agent where
  "agentB = \<lparr>a_id = ''B'', a_hostname = ''mac-b'', a_platform = ''darwin'', a_online = True,
              a_childId = Some ''c1''\<rparr>"

definition ctx0 :: host_context where
  "ctx0 = \<lparr>has_sendToRenderer = True, has_logActivity = True, has_notify = True\<rparr>"

definition accepting :: service where
  "accepting tr c = False"

text \<open>The plugin after \<^verbatim>\<open>onLoad\<close> with no saved state and no agent on the network.\<close>

definition fresh :: plugin where
  "fresh = \<lparr>objs = [], arrs = [[]], state_agents = 0, agents = 0, violations = [],
             settings = defaultSettings, enabled = True, ctx = ctx0, trace = [], out = []\<rparr>"

text \<open>The plugin with agent A known and no call issued yet.\<close>

definition withA :: plugin where
  "withA = fresh\<lparr>objs := [agentA], arrs := [[0]]\<rparr>"

definition quota10 :: allow2State where
  "quota10 = \<lparr>paused = False, quota = 10\<rparr>"

definition pausedZero :: allow2State where
  "pausedZero = \<lparr>paused = True, quota = 0\<rparr>"

definition paused10 :: allow2State where
  "paused10 = \<lparr>paused = True, quota = 10\<rparr>"

definition fortniteData :: violationData where
  "fortniteData = \<lparr>vd_agentId = ''A'', vd_hostname = Some ''pc-a'',
               vd_processName = ''FortniteClient-Win64-Shipping.exe'',
               vd_timestamp = Some ''2025-01-01T00:00:00Z'', vd_childId = Some ''c1''\<rparr>"

definition notepadData :: violationData where
  "notepadData = fortniteData\<lparr>vd_processName := ''notepad.exe''\<rparr>"

text \<open>Agent A discovered once, and the same event delivered a second time.\<close>

definition discoveredOnce :: plugin where
  "discoveredOnce = snd (on_agentDiscovered accepting agentA fresh)"

definition discoveredTwice :: plugin where
  "discoveredTwice = snd (on_agentDiscovered accepting agentA discoveredOnce)"

text \<open>Settings updates: games off, and a check interval of \<open>-5\<close>.\<close>

definition gamesOff :: newSettings where
  "gamesOff = \<lparr>n_monitorFortnite = None, n_monitorAllGames = Some False,
               n_checkInterval = None, n_enableNotifications = None\<rparr>"

text \<open>The same toggle as the settings form sends it: with every key of the settings.\<close>

definition gamesOffFull :: newSettings where
  "gamesOffFull = \<lparr>n_monitorFortnite = Some True, n_monitorAllGames = Some False,
                   n_checkInterval = Some 30000, n_enableNotifications = Some True\<rparr>"

definition intervalMinus5 :: newSettings where
  "intervalMinus5 = \<lparr>n_monitorFortnite = None, n_monitorAllGames = None,
                     n_checkInterval = Some (- 5), n_enableNotifications = None\<rparr>"

definition intervalZero :: newSettings where
  "intervalZero = intervalMinus5\<lparr>n_checkInterval := Some 0\<rparr>"

text \<open>Agent A linked to child c1, whose quota is 10.\<close>

definition linkedA :: plugin where
  "linkedA = snd (ipc_linkAgent accepting (\<lambda>c. Some quota10) ''A'' ''c1'' discoveredOnce)"

text \<open>
  A run in which an agent is lost before agent A joins: the plugin loads with agent B on
  the network, B is lost, agent A is discovered and linked to child c1.
\<close>

definition loadedB :: plugin where
  "loadedB = fresh\<lparr>objs := [agentB], arrs := [[0]],
                   trace := createCalls defaultSettings agentB\<rparr>"

definition afterLoss :: plugin where
  "afterLoss = on_agentLost ''B'' loadedB"

definition afterDiscovery :: plugin where
  "afterDiscovery = snd (on_agentDiscovered accepting agentA afterLoss)"

definition afterLink :: plugin where
  "afterLink = snd (ipc_linkAgent accepting (\<lambda>c. Some quota10) ''A'' ''c1'' afterDiscovery)"

definition twoViolations :: plugin where
  "twoViolations = fresh\<lparr>violations := [mkViolation ''v1'' ''t1'' fortniteData,
                                        mkViolation ''v2'' ''t2'' fortniteData]\<rparr>"

section \<open>Sequences of service calls\<close>

text \<open>
  The calls issued are a prefix of the calls attempted: the whole list when all resolved,
  and never empty when there was a call to attempt.
\<close>

lemma awaitAll_take:
  "\<exists>n. snd (awaitAll rj cs tr) = tr @ take n cs \<and>
       (fst (awaitAll rj cs tr) \<longrightarrow> n = length cs) \<and> (cs \<noteq> [] \<longrightarrow> 0 < n)"
proof (induction cs arbitrary: tr)
  case Nil
  then show ?case by simp
next
  case (Cons c cs)
  show ?case
  proof (cases "rj tr c")
    case True
    then have "snd (awaitAll rj (c # cs) tr) = tr @ take 1 (c # cs)" by simp
    with True show ?thesis by (intro exI[of _ 1]) simp
  next
    case False
    from Cons.IH[of "tr @ [c]"] obtain n where
      n: "snd (awaitAll rj cs (tr @ [c])) = (tr @ [c]) @ take n cs"
         "fst (awaitAll rj cs (tr @ [c])) \<longrightarrow> n = length cs" by blast
    with False show ?thesis by (intro exI[of _ "Suc n"]) simp
  qed
qed

lemma awaitAll_reliable: "reliable rj \<Longrightarrow> awaitAll rj cs tr = (True, tr @ cs)"
  by (induction cs arbitrary: tr) (auto simp: reliable_def)

lemma awaitAll_prefix: "prefix (drop (length tr) (snd (awaitAll rj cs tr))) cs"
proof -
  obtain n where "snd (awaitAll rj cs tr) = tr @ take n cs" using awaitAll_take by blast
  then show ?thesis by (simp add: take_is_prefix)
qed

lemma awaitAll_first:
  "\<exists>rest. drop (length tr) (snd (awaitAll rj (c # cs) tr)) = c # rest"
proof -
  obtain n where n: "snd (awaitAll rj (c # cs) tr) = tr @ take n (c # cs)" "0 < n"
    using awaitAll_take[of rj "c # cs" tr] by auto
  then show ?thesis by (cases n) simp_all
qed

text \<open>The lookup in the table fails exactly on the names of inherited members.\<close>

lemma getEpicProcessNames_None: "getEpicProcessNames p = None \<longleftrightarrow> \<not> knownPlatform p"
  by (simp add: getEpicProcessNames_def knownPlatform_def inheritedKeys_def)

lemma knownPlatform_table [simp]:
  "knownPlatform ''win32''" "knownPlatform ''darwin''" "knownPlatform ''linux''"
  by (simp_all add: knownPlatform_def inheritedKeys_def)

lemma createCalls_unknown: "\<not> knownPlatform (a_platform a) \<Longrightarrow> createCalls st a = []"
  by (simp add: createCalls_def getEpicProcessNames_None[symmetric])

lemma updateCalls_known:
  "knownPlatform (a_platform a) \<Longrightarrow> \<exists>p rest. updateCalls st a b = UpdatePolicy (a_id a) p b # rest"
  by (cases "getEpicProcessNames (a_platform a)")
     (simp_all add: updateCalls_def getEpicProcessNames_None)

lemma createCalls_known: "knownPlatform (a_platform a) \<Longrightarrow> createCalls st a \<noteq> []"
  by (cases "getEpicProcessNames (a_platform a)")
     (simp_all add: createCalls_def getEpicProcessNames_None)

lemma configureEpicPolicy_eq:
  "configureEpicPolicy rj a s =
     (knownPlatform (a_platform a) \<and> fst (awaitAll rj (createCalls (settings s) a) (trace s)),
      s\<lparr>trace := snd (awaitAll rj (createCalls (settings s) a) (trace s))\<rparr>)"
proof (cases "getEpicProcessNames (a_platform a)")
  case None
  then have "\<not> knownPlatform (a_platform a)" by (simp add: getEpicProcessNames_None)
  with None show ?thesis by (simp add: configureEpicPolicy_def createCalls_def)
next
  case (Some pn)
  then have "knownPlatform (a_platform a)"
    using getEpicProcessNames_None[of "a_platform a"] by auto
  with Some show ?thesis
    by (simp add: configureEpicPolicy_def createCalls_def split: prod.splits)
qed

lemma updateEpicPolicy_eq:
  "updateEpicPolicy rj a q s =
     s\<lparr>trace := snd (awaitAll rj (updateCalls (settings s) a (epicAllowed q)) (trace s))\<rparr>"
  by (cases "getEpicProcessNames (a_platform a)")
     (simp_all add: updateEpicPolicy_def updateCalls_def split: prod.splits)

lemma updatesWith_updateCalls: "updatesWith b (updateCalls st a b)"
  by (auto simp: updatesWith_def updateCalls_def list_all_iff split: option.splits)

lemma updatesWith_take: "updatesWith b cs \<Longrightarrow> updatesWith b (take n cs)"
  by (auto simp: updatesWith_def list_all_iff dest: in_set_takeD)

lemma updatesWith_append: "updatesWith b (xs @ ys) \<longleftrightarrow> updatesWith b xs \<and> updatesWith b ys"
  by (auto simp: updatesWith_def)

text \<open>
  One agent's update: the calls issued carry the flag, and for a known platform the first
  of them is the update of the agent's launcher policy, whatever the service rejects.
\<close>

lemma updateEpicPolicy_issued:
  "\<exists>new. updateEpicPolicy rj a q s = s\<lparr>trace := trace s @ new\<rparr> \<and>
         updatesWith (epicAllowed q) new \<and>
         (knownPlatform (a_platform a) \<longrightarrow>
            (\<exists>p rest. new = UpdatePolicy (a_id a) p (epicAllowed q) # rest))"
proof -
  let ?cs = "updateCalls (settings s) a (epicAllowed q)"
  obtain n where n: "snd (awaitAll rj ?cs (trace s)) = trace s @ take n ?cs"
    "?cs \<noteq> [] \<longrightarrow> 0 < n"
    using awaitAll_take[of rj ?cs "trace s"] by blast
  have u: "updatesWith (epicAllowed q) (take n ?cs)"
    by (rule updatesWith_take[OF updatesWith_updateCalls])
  have k: "\<exists>p rest. take n ?cs = UpdatePolicy (a_id a) p (epicAllowed q) # rest"
    if "knownPlatform (a_platform a)"
  proof -
    from updateCalls_known[OF that] obtain p rest where
      c: "?cs = UpdatePolicy (a_id a) p (epicAllowed q) # rest" by blast
    with n(2) have "0 < n" by simp
    with c show ?thesis by (cases n) simp_all
  qed
  from n(1) u k show ?thesis by (auto simp: updateEpicPolicy_eq)
qed

lemma updateEach_issued:
  "\<exists>new. updateEach rj q as s = s\<lparr>trace := trace s @ new\<rparr> \<and> updatesWith (epicAllowed q) new"
proof (induction as arbitrary: s)
  case Nil
  show ?case by (intro exI[of _ "[]"]) (simp add: updatesWith_def)
next
  case (Cons a as)
  obtain n1 where n1: "updateEpicPolicy rj a q s = s\<lparr>trace := trace s @ n1\<rparr>"
    "updatesWith (epicAllowed q) n1"
    using updateEpicPolicy_issued by blast
  let ?s1 = "s\<lparr>trace := trace s @ n1\<rparr>"
  obtain n2 where n2: "updateEach rj q as ?s1 = ?s1\<lparr>trace := trace ?s1 @ n2\<rparr>"
     "updatesWith (epicAllowed q) n2"
    using Cons.IH by blast
  show ?case using n1 n2 by (intro exI[of _ "n1 @ n2"]) (simp add: updatesWith_append)
qed

section \<open>The allowed flag\<close>

lemma issued_append [simp]: "issued s (s'\<lparr>trace := trace s @ new\<rparr>) = new"
  by (simp add: issued_def)

lemma issued_objs [simp]: "issued s (s\<lparr>objs := x, trace := trace s @ new\<rparr>) = new"
  by (simp add: issued_def)

lemma issued_same [simp]: "issued s s = []" "issued s (s\<lparr>objs := x\<rparr>) = []"
  by (simp_all add: issued_def)

lemma updatesWith_Nil [simp]: "updatesWith b []"
  by (simp add: updatesWith_def)

lemma find_stateAgents:
  "find (\<lambda>a. a_id (deref s a) = agentId) (arrs s ! state_agents s) = None \<longleftrightarrow>
     agentId \<notin> set (map a_id (stateAgents s))"
  by (auto simp: find_None_iff stateAgents_def)

lemma linkAgent_issued:
  assumes "getChildState childId = Some q"
  shows "updatesWith (epicAllowed q)
           (issued s (snd (ipc_linkAgent rj getChildState agentId childId s)))"
    and "agentId \<in> set (map a_id (stateAgents s)) \<Longrightarrow>
         \<forall>a\<in>set (stateAgents s). a_id a = agentId \<longrightarrow> knownPlatform (a_platform a) \<Longrightarrow>
         \<exists>p rest. issued s (snd (ipc_linkAgent rj getChildState agentId childId s)) =
            UpdatePolicy agentId p (epicAllowed q) # rest"
proof -
  let ?f = "find (\<lambda>a. a_id (deref s a) = agentId) (arrs s ! state_agents s)"
  show "updatesWith (epicAllowed q)
          (issued s (snd (ipc_linkAgent rj getChildState agentId childId s)))"
  proof (cases ?f)
    case None
    then show ?thesis by (simp add: ipc_linkAgent_def)
  next
    case (Some a)
    let ?s1 = "s\<lparr>objs := (objs s)[a := (deref s a)\<lparr>a_childId := Some childId\<rparr>]\<rparr>"
    obtain new where new:
      "updateEpicPolicy rj (deref ?s1 a) q ?s1 = ?s1\<lparr>trace := trace ?s1 @ new\<rparr>"
      "updatesWith (epicAllowed q) new"
      using updateEpicPolicy_issued by blast
    show ?thesis using Some assms new by (simp add: ipc_linkAgent_def Let_def)
  qed
  assume known: "agentId \<in> set (map a_id (stateAgents s))"
    and plat: "\<forall>a\<in>set (stateAgents s). a_id a = agentId \<longrightarrow> knownPlatform (a_platform a)"
  from known obtain a where Some: "?f = Some a"
    using find_stateAgents[of s agentId] by (cases ?f) auto
  then have ida: "a_id (deref s a) = agentId" and mem: "a \<in> set (arrs s ! state_agents s)"
    by (auto simp: find_Some_iff)
  from mem have "deref s a \<in> set (stateAgents s)" by (simp add: stateAgents_def)
  with plat ida have kp: "knownPlatform (a_platform (deref s a))" by blast
  let ?s1 = "s\<lparr>objs := (objs s)[a := (deref s a)\<lparr>a_childId := Some childId\<rparr>]\<rparr>"
  have same: "a_id (deref ?s1 a) = agentId \<and> knownPlatform (a_platform (deref ?s1 a))"
    using ida kp by (cases "a < length (objs s)") (simp_all add: deref_def list_update_beyond)
  obtain new where new:
      "updateEpicPolicy rj (deref ?s1 a) q ?s1 = ?s1\<lparr>trace := trace ?s1 @ new\<rparr>"
      "knownPlatform (a_platform (deref ?s1 a)) \<longrightarrow>
         (\<exists>p rest. new = UpdatePolicy (a_id (deref ?s1 a)) p (epicAllowed q) # rest)"
      using updateEpicPolicy_issued by blast
  with same have "\<exists>p rest. new = UpdatePolicy agentId p (epicAllowed q) # rest"
    by auto
  then show "\<exists>p rest. issued s (snd (ipc_linkAgent rj getChildState agentId childId s)) =
            UpdatePolicy agentId p (epicAllowed q) # rest"
    using Some assms new(1) by (simp add: ipc_linkAgent_def Let_def)
qed

lemma stateChange_issued:
  "updatesWith (epicAllowed q) (issued s (on_stateChange rj childId q s))"
proof -
  obtain new where "updateEach rj q (filter (\<lambda>a. a_childId a = Some childId) (capturedAgents s)) s
      = s\<lparr>trace := trace s @ new\<rparr>" "updatesWith (epicAllowed q) new"
    using updateEach_issued by blast
  then show ?thesis by (simp add: on_stateChange_def)
qed

text \<open>
  What the handler reaches whatever the service rejects: every agent of the captured array
  that is bound to the child gets the update of its launcher policy.
\<close>

lemma updateEach_reaches:
  "a \<in> set as \<Longrightarrow> knownPlatform (a_platform a) \<Longrightarrow>
     \<exists>p. UpdatePolicy (a_id a) p (epicAllowed q) \<in> set (issued s (updateEach rj q as s))"
proof (induction as arbitrary: s)
  case Nil
  then show ?case by simp
next
  case (Cons b bs)
  obtain n1 where n1: "updateEpicPolicy rj b q s = s\<lparr>trace := trace s @ n1\<rparr>"
    "knownPlatform (a_platform b) \<longrightarrow>
       (\<exists>p rest. n1 = UpdatePolicy (a_id b) p (epicAllowed q) # rest)"
    using updateEpicPolicy_issued by blast
  let ?s1 = "s\<lparr>trace := trace s @ n1\<rparr>"
  obtain n2 where n2: "updateEach rj q bs ?s1 = ?s1\<lparr>trace := trace ?s1 @ n2\<rparr>"
    using updateEach_issued by blast
  have all: "issued s (updateEach rj q (b # bs) s) = n1 @ n2"
    using n1(1) n2 by (simp add: issued_def)
  show ?case
  proof (cases "a = b")
    case True
    with n1(2) Cons.prems(2) obtain p rest where
      "n1 = UpdatePolicy (a_id a) p (epicAllowed q) # rest" by blast
    then have "UpdatePolicy (a_id a) p (epicAllowed q) \<in> set n1" by simp
    then show ?thesis by (auto simp only: all set_append Un_iff)
  next
    case False
    with Cons.prems have "a \<in> set bs" by simp
    from Cons.IH[OF this Cons.prems(2), of ?s1] n2
    obtain p where "UpdatePolicy (a_id a) p (epicAllowed q) \<in> set n2"
      by (auto simp: issued_def)
    then show ?thesis by (auto simp only: all set_append Un_iff)
  qed
qed

lemma stateChange_reaches_captured:
  "a \<in> set (capturedAgents s) \<Longrightarrow> a_childId a = Some childId \<Longrightarrow>
   knownPlatform (a_platform a) \<Longrightarrow>
     \<exists>p. UpdatePolicy (a_id a) p (epicAllowed q) \<in> set (issued s (on_stateChange rj childId q s))"
  by (simp add: on_stateChange_def updateEach_reaches)

lemma updateQuotaStatus_issued:
  "updatesWith (\<not> paused q \<and> 0 < quota q)
     (drop (length tr) (snd (updateQuotaStatus rj monitored agentId q tr)))"
proof (cases monitored)
  case None
  then show ?thesis by (simp add: updateQuotaStatus_def)
next
  case (Some ps)
  let ?cs = "map (\<lambda>name. UpdatePolicy agentId name (\<not> paused q \<and> 0 < quota q)) ps"
  obtain n where "snd (awaitAll rj ?cs tr) = tr @ take n ?cs" using awaitAll_take by blast
  moreover have "updatesWith (\<not> paused q \<and> 0 < quota q) (take n ?cs)"
    by (rule updatesWith_take) (auto simp: updatesWith_def list_all_iff)
  ultimately show ?thesis using Some by (simp add: updateQuotaStatus_def)
qed

lemma updateQuotaStatus_first:
  "monitored = Some (p # ps) \<Longrightarrow>
     \<exists>rest. drop (length tr) (snd (updateQuotaStatus rj monitored agentId q tr)) =
        UpdatePolicy agentId p (\<not> paused q \<and> 0 < quota q) # rest"
proof -
  assume m: "monitored = Some (p # ps)"
  let ?f = "\<lambda>name. UpdatePolicy agentId name (\<not> paused q \<and> 0 < quota q)"
  have "updateQuotaStatus rj monitored agentId q tr = awaitAll rj (?f p # map ?f ps) tr"
    by (simp add: updateQuotaStatus_def m Let_def del: awaitAll.simps)
  then show ?thesis
    using awaitAll_first[of tr rj "?f p" "map ?f ps"] by (simp only:)
qed

text \<open>
  C1. The allowed flag pushed on link and on quota change is \<open>\<not> paused \<and> quota > 0\<close>. Every
  call issued by the link handler (for the fetched state \<open>q\<close>), by the \<^verbatim>\<open>stateChange\<close> handler
  and by \<^verbatim>\<open>EpicMonitor.updateQuotaStatus\<close> is an update carrying exactly that flag. Such
  updates are issued: linking a known agent updates its launcher policy with the flag, a
  quota change updates the launcher policy of every agent of the captured array that is
  bound to the child, and \<^verbatim>\<open>updateQuotaStatus\<close> updates the first monitored process (all
  this for agents whose platform string is not the name of an inherited member, for which
  the code throws before any update). Hence a paused state gives \<open>False\<close> whatever the
  quota, a quota of at most zero gives \<open>False\<close>, and an unpaused state with a positive quota
  gives \<open>True\<close>.
\<close>

theorem C1_allowed_flag:
  "(getChildState childId = Some q \<longrightarrow>
      updatesWith (\<not> paused q \<and> 0 < quota q)
        (issued s (snd (ipc_linkAgent rj getChildState agentId childId s)))) \<and>
   (getChildState childId = Some q \<and> agentId \<in> set (map a_id (stateAgents s)) \<and>
    (\<forall>b\<in>set (stateAgents s). a_id b = agentId \<longrightarrow> knownPlatform (a_platform b)) \<longrightarrow>
      (\<exists>p rest. issued s (snd (ipc_linkAgent rj getChildState agentId childId s)) =
          UpdatePolicy agentId p (\<not> paused q \<and> 0 < quota q) # rest)) \<and>
   updatesWith (\<not> paused q \<and> 0 < quota q) (issued s (on_stateChange rj childId q s)) \<and>
   (a \<in> set (capturedAgents s) \<and> a_childId a = Some childId \<and> knownPlatform (a_platform a) \<longrightarrow>
      (\<exists>p. UpdatePolicy (a_id a) p (\<not> paused q \<and> 0 < quota q)
             \<in> set (issued s (on_stateChange rj childId q s)))) \<and>
   updatesWith (\<not> paused q \<and> 0 < quota q)
     (drop (length tr) (snd (updateQuotaStatus rj monitored agentId q tr))) \<and>
   (monitored = Some (name # names) \<longrightarrow>
      (\<exists>rest. drop (length tr) (snd (updateQuotaStatus rj monitored agentId q tr)) =
          UpdatePolicy agentId name (\<not> paused q \<and> 0 < quota q) # rest)) \<and>
   (paused q \<longrightarrow> \<not> epicAllowed q) \<and>
   (quota q \<le> 0 \<longrightarrow> \<not> epicAllowed q) \<and>
   (\<not> paused q \<and> 0 < quota q \<longrightarrow> epicAllowed q)"
proof (intro conjI impI)
  have e: "epicAllowed q = (\<not> paused q \<and> 0 < quota q)" by (simp add: epicAllowed_def)
  let ?link = "issued s (snd (ipc_linkAgent rj getChildState agentId childId s))"
  show "updatesWith (\<not> paused q \<and> 0 < quota q) ?link" if "getChildState childId = Some q"
    using linkAgent_issued(1)[where getChildState=getChildState and childId=childId and q=q,
        OF that] by (simp only: e)
  show "\<exists>p rest. ?link = UpdatePolicy agentId p (\<not> paused q \<and> 0 < quota q) # rest"
    if h: "getChildState childId = Some q \<and> agentId \<in> set (map a_id (stateAgents s)) \<and>
      (\<forall>b\<in>set (stateAgents s). a_id b = agentId \<longrightarrow> knownPlatform (a_platform b))"
  proof -
    from h have h1: "getChildState childId = Some q"
      and h2: "agentId \<in> set (map a_id (stateAgents s))"
      and h3: "\<forall>b\<in>set (stateAgents s). a_id b = agentId \<longrightarrow> knownPlatform (a_platform b)"
      by blast+
    from linkAgent_issued(2)[where getChildState=getChildState and childId=childId and q=q,
        OF h1 h2 h3] show ?thesis by (simp only: e)
  qed
  show "updatesWith (\<not> paused q \<and> 0 < quota q) (issued s (on_stateChange rj childId q s))"
    using stateChange_issued[of q s rj childId] by (simp only: e)
  show "\<exists>p. UpdatePolicy (a_id a) p (\<not> paused q \<and> 0 < quota q)
             \<in> set (issued s (on_stateChange rj childId q s))"
    if h: "a \<in> set (capturedAgents s) \<and> a_childId a = Some childId \<and>
      knownPlatform (a_platform a)"
  proof -
    from h have "\<exists>p. UpdatePolicy (a_id a) p (epicAllowed q)
        \<in> set (issued s (on_stateChange rj childId q s))"
      by (intro stateChange_reaches_captured) blast+
    then show ?thesis by (simp only: e)
  qed
  show "updatesWith (\<not> paused q \<and> 0 < quota q)
     (drop (length tr) (snd (updateQuotaStatus rj monitored agentId q tr)))"
    by (rule updateQuotaStatus_issued)
  show "\<exists>rest. drop (length tr) (snd (updateQuotaStatus rj monitored agentId q tr)) =
          UpdatePolicy agentId name (\<not> paused q \<and> 0 < quota q) # rest"
    if "monitored = Some (name # names)"
    by (rule updateQuotaStatus_first[OF that])
  show "\<not> epicAllowed q" if "paused q" using that by (simp add: e)
  show "\<not> epicAllowed q" if "quota q \<le> 0" using that by (simp add: e)
  show "epicAllowed q" if "\<not> paused q \<and> 0 < quota q" using that by (simp add: e)
qed

text \<open>
  The theorem at concrete states: linking agent A to a child with quota 10 pushes the flag
  \<open>True\<close>; pausing the child of the loaded agent B pushes \<open>False\<close> to B, and so does
  \<^verbatim>\<open>updateQuotaStatus\<close> for a monitored launcher; a paused child with quota 0 gives \<open>False\<close>.
\<close>

theorem C1_allowed_flag_witness:
  "(\<lambda>c. Some quota10) ''c1'' = Some quota10 \<and> ''A'' \<in> set (map a_id (stateAgents withA)) \<and>
   stateAgents withA = [agentA] \<and> knownPlatform (a_platform agentA) \<and>
   (\<exists>p rest. issued withA (snd (ipc_linkAgent accepting (\<lambda>c. Some quota10) ''A'' ''c1'' withA)) =
       UpdatePolicy ''A'' p (\<not> paused quota10 \<and> 0 < quota quota10) # rest) \<and>
   agentB \<in> set (capturedAgents loadedB) \<and> a_childId agentB = Some ''c1'' \<and>
   knownPlatform (a_platform agentB) \<and>
   (\<exists>p. UpdatePolicy (a_id agentB) p (\<not> paused paused10 \<and> 0 < quota paused10)
          \<in> set (issued loadedB (on_stateChange accepting ''c1'' paused10 loadedB))) \<and>
   (\<exists>rest. drop (length ([] :: call list))
       (snd (updateQuotaStatus accepting (Some [''EpicGamesLauncher'']) ''B'' paused10 [])) =
       UpdatePolicy ''B'' ''EpicGamesLauncher'' (\<not> paused paused10 \<and> 0 < quota paused10) # rest) \<and>
   \<not> paused quota10 \<and> 0 < quota quota10 \<and> epicAllowed quota10 \<and>
   paused pausedZero \<and> quota pausedZero \<le> 0 \<and> \<not> epicAllowed pausedZero"
proof -
  have h1: "(\<lambda>c. Some quota10) ''c1'' = Some quota10" by simp
  have h2: "''A'' \<in> set (map a_id (stateAgents withA))"
    by (simp add: stateAgents_def withA_def fresh_def deref_def agentA_def)
  have h3: "\<forall>b\<in>set (stateAgents withA). a_id b = ''A'' \<longrightarrow> knownPlatform (a_platform b)"
    by (simp add: stateAgents_def withA_def fresh_def deref_def agentA_def)
  have h8: "stateAgents withA = [agentA]" "knownPlatform (a_platform agentA)"
    by (simp_all add: stateAgents_def withA_def fresh_def deref_def agentA_def)
  have h4: "agentB \<in> set (capturedAgents loadedB)"
    by (simp add: capturedAgents_def loadedB_def fresh_def deref_def)
  have h5: "a_childId agentB = Some ''c1''" "knownPlatform (a_platform agentB)"
    by (simp_all add: agentB_def)
  have h6: "Some [''EpicGamesLauncher''] = Some (''EpicGamesLauncher'' # [])" by simp
  have h7: "\<not> paused quota10" "0 < quota quota10" "paused pausedZero" "quota pausedZero \<le> 0"
    by (simp_all add: quota10_def pausedZero_def)
  note t1 = C1_allowed_flag[where getChildState="\<lambda>c. Some quota10" and childId="''c1''"
            and q=quota10 and s=withA and rj=accepting and agentId="''A''"]
  note t2 = C1_allowed_flag[where q=paused10 and s=loadedB and rj=accepting
            and childId="''c1''" and a=agentB and agentId="''B''" and tr="[]"
            and monitored="Some [''EpicGamesLauncher'']" and name="''EpicGamesLauncher''"
            and names="[]"]
  note t3 = C1_allowed_flag[where q=pausedZero]
  have c1: "\<exists>p rest.
      issued withA (snd (ipc_linkAgent accepting (\<lambda>c. Some quota10) ''A'' ''c1'' withA)) =
       UpdatePolicy ''A'' p (\<not> paused quota10 \<and> 0 < quota quota10) # rest"
    using t1[THEN conjunct2, THEN conjunct1] h1 h2 h3 by blast
  have c2: "\<exists>p. UpdatePolicy (a_id agentB) p (\<not> paused paused10 \<and> 0 < quota paused10)
          \<in> set (issued loadedB (on_stateChange accepting ''c1'' paused10 loadedB))"
    using t2[THEN conjunct2, THEN conjunct2, THEN conjunct2, THEN conjunct1] h4 h5 by blast
  have c3: "\<exists>rest. drop (length ([] :: call list))
       (snd (updateQuotaStatus accepting (Some [''EpicGamesLauncher'']) ''B'' paused10 [])) =
       UpdatePolicy ''B'' ''EpicGamesLauncher'' (\<not> paused paused10 \<and> 0 < quota paused10) # rest"
    using t2[THEN conjunct2, THEN conjunct2, THEN conjunct2, THEN conjunct2, THEN conjunct2,
             THEN conjunct1] h6 by blast
  have c4: "epicAllowed quota10"
    using t1[THEN conjunct2, THEN conjunct2, THEN conjunct2, THEN conjunct2, THEN conjunct2,
             THEN conjunct2, THEN conjunct2, THEN conjunct2] h7 by blast
  have c5: "\<not> epicAllowed pausedZero"
    using t3[THEN conjunct2, THEN conjunct2, THEN conjunct2, THEN conjunct2, THEN conjunct2,
             THEN conjunct2, THEN conjunct1] h7 by blast
  from h1 h2 h4 h5 h7 h8 c1 c2 c3 c4 c5 show ?thesis by blast
qed

section \<open>The violation journal\<close>

lemma slice_last: "0 < n \<Longrightarrow> slice (- int n) xs = drop (length xs - n) xs"
  by (simp add: slice_def Let_def max_def nat_diff_distrib') 

lemma slice_100: "slice (- 100) xs = drop (length xs - 100) xs"
  using slice_last[of 100 xs] by simp

lemma handleViolation_violations:
  "violations (handleViolation newId now vd s) =
     slice (- 100) (violations s @ [mkViolation newId now vd])"
  by (simp add: handleViolation_def Let_def slice_100)

lemma slice_100_length: "length (slice (- 100) xs) \<le> 100"
  by (simp add: slice_100)

lemma slice_100_append: "slice (- 100) (slice (- 100) xs @ ys) = slice (- 100) (xs @ ys)"
proof -
  let ?b = "length xs - 100"
  have "drop ?b xs @ ys = drop ?b (xs @ ys)" by simp
  moreover have "length (drop ?b (xs @ ys)) - 100 + ?b = length (xs @ ys) - 100" by auto
  ultimately have "drop (length (drop ?b xs @ ys) - 100) (drop ?b xs @ ys) =
      drop (length (xs @ ys) - 100) (xs @ ys)"
    by (simp only: drop_drop)
  then show ?thesis by (simp only: slice_100)
qed

lemma appendAll_violations:
  "es \<noteq> [] \<Longrightarrow> violations (appendAll es s) = slice (- 100) (violations s @ mkAll es)"
proof (induction es arbitrary: s)
  case Nil
  then show ?case by simp
next
  case (Cons e es)
  obtain newId now vd where e: "e = (newId, now, vd)" by (cases e) auto
  show ?case
  proof (cases "es = []")
    case True
    then show ?thesis by (simp add: e handleViolation_violations mkAll_def)
  next
    case False
    from Cons.IH[OF False, of "handleViolation newId now vd s"]
    show ?thesis
      by (simp add: e handleViolation_violations slice_100_append mkAll_def)
  qed
qed

lemma slice_100_full: "100 \<le> length ys \<Longrightarrow> slice (- 100) (xs @ ys) = drop (length ys - 100) ys"
  by (simp add: slice_100)

text \<open>
  C2. The violation journal never holds more than 100 entries: after one append, and after
  any non-empty run of appends from any state, the stored list has at most 100 entries;
  after at least 100 appends the journal is exactly the last 100 appended violations in
  insertion order, so after 100 + 5 appends it is the appended violations without the
  oldest five.
\<close>

theorem C2_journal_bounded:
  "length (violations (handleViolation newId now vd s)) \<le> 100 \<and>
   (es \<noteq> [] \<longrightarrow> length (violations (appendAll es s)) \<le> 100) \<and>
   (100 \<le> length es \<longrightarrow> violations (appendAll es s) = drop (length es - 100) (mkAll es)) \<and>
   (length es = 100 + 5 \<longrightarrow> violations (appendAll es s) = drop 5 (mkAll es))"
proof -
  have a: "length (violations (handleViolation newId now vd s)) \<le> 100"
    by (simp add: handleViolation_violations slice_100_length)
  have b: "length (violations (appendAll es s)) \<le> 100" if "es \<noteq> []"
    using that by (simp add: appendAll_violations slice_100_length)
  have c: "violations (appendAll es s) = drop (length es - 100) (mkAll es)" if "100 \<le> length es"
  proof -
    from that have "es \<noteq> []" by auto
    moreover have "100 \<le> length (mkAll es)" using that by (simp add: mkAll_def)
    ultimately show ?thesis
      by (simp add: appendAll_violations slice_100_full mkAll_def)
  qed
  have d: "violations (appendAll es s) = drop 5 (mkAll es)" if "length es = 100 + 5"
    using c that by simp
  from a b c d show ?thesis by blast
qed

text \<open>
  The theorem at a run of 105 appends to the empty journal.
\<close>

theorem C2_journal_bounded_witness:
  "replicate 105 (''id'', ''now'', fortniteData) \<noteq> [] \<and>
   100 \<le> length (replicate 105 (''id'', ''now'', fortniteData)) \<and>
   length (replicate 105 (''id'', ''now'', fortniteData)) = 100 + 5 \<and>
   length (violations (appendAll (replicate 105 (''id'', ''now'', fortniteData)) fresh)) \<le> 100 \<and>
   violations (appendAll (replicate 105 (''id'', ''now'', fortniteData)) fresh) =
     drop 5 (mkAll (replicate 105 (''id'', ''now'', fortniteData)))"
  using C2_journal_bounded[where es="replicate 105 (''id'', ''now'', fortniteData)" and s=fresh]
  by (simp add: mkAll_def)

section \<open>The violation filter\<close>

lemma str_includes_sublist: "str_includes s k \<longleftrightarrow> sublist k s"
  by (induction s) (simp_all add: sublist_Cons_right)

lemma isEpicProcess_iff:
  "isEpicProcess toLowerCase pn \<longleftrightarrow>
     (\<exists>keyword\<in>set epicProcessKeywords. sublist keyword (toLowerCase pn))"
  by (simp add: isEpicProcess_def list_ex_iff str_includes_sublist)

lemma lowersAscii_asciiLower: "lowersAscii asciiLower"
  by (simp add: lowersAscii_def)

lemma isAscii_names:
  "isAscii ''FortniteClient-Win64-Shipping.exe''" "isAscii ''notepad.exe''"
  by code_simp+

lemma asciiLower_fortnite:
  "asciiLower ''FortniteClient-Win64-Shipping.exe'' = ''fortniteclient-win64-shipping.exe''"
  by code_simp

lemma notepad_notEpic: "\<not> isEpicProcess asciiLower ''notepad.exe''"
  by code_simp

lemma lower_fortnite:
  "lowersAscii toLowerCase \<Longrightarrow>
     toLowerCase ''FortniteClient-Win64-Shipping.exe'' = ''fortniteclient-win64-shipping.exe''"
  using isAscii_names(1) asciiLower_fortnite by (simp add: lowersAscii_def)

lemma lower_notepad_notEpic:
  "lowersAscii toLowerCase \<Longrightarrow> \<not> isEpicProcess toLowerCase ''notepad.exe''"
  using isAscii_names(2) notepad_notEpic by (simp add: lowersAscii_def isEpicProcess_def)

lemma last_slice_100: "last (slice (- 100) (xs @ [x])) = x"
  by (simp add: slice_100)

text \<open>
  C7. A violation event is recorded if and only if its process name, lowercased, contains
  one of the Epic keywords as a substring, whatever the lower-casing does: when it does,
  the violation is appended (the journal becomes the last 100 entries of the old journal
  followed by the new violation, which is its last entry); when it does not, the handler
  leaves the whole plugin state as it was. With a lower-casing that maps A to Z to a to z
  on ASCII names, the name \<^verbatim>\<open>FortniteClient-Win64-Shipping.exe\<close> contains the keyword
  \<^verbatim>\<open>fortniteclient\<close> and is recorded, and \<^verbatim>\<open>notepad.exe\<close> is dropped.
\<close>

theorem C7_violation_filter:
  "((\<exists>keyword\<in>set epicProcessKeywords. sublist keyword (toLowerCase (vd_processName vd))) \<longrightarrow>
      violations (on_violation toLowerCase newId now vd s) =
        slice (- 100) (violations s @ [mkViolation newId now vd]) \<and>
      last (violations (on_violation toLowerCase newId now vd s)) = mkViolation newId now vd) \<and>
   (\<not> (\<exists>keyword\<in>set epicProcessKeywords. sublist keyword (toLowerCase (vd_processName vd))) \<longrightarrow>
      on_violation toLowerCase newId now vd s = s) \<and>
   (lowersAscii toLowerCase \<and> vd_processName vd = ''FortniteClient-Win64-Shipping.exe'' \<longrightarrow>
      ''fortniteclient'' \<in> set epicProcessKeywords \<and>
      sublist ''fortniteclient'' (toLowerCase (vd_processName vd)) \<and>
      last (violations (on_violation toLowerCase newId now vd s)) = mkViolation newId now vd) \<and>
   (lowersAscii toLowerCase \<and> vd_processName vd = ''notepad.exe'' \<longrightarrow>
      on_violation toLowerCase newId now vd s = s)"
proof -
  let ?epic = "isEpicProcess toLowerCase (vd_processName vd)"
  let ?after = "on_violation toLowerCase newId now vd s"
  have rec: "violations ?after = slice (- 100) (violations s @ [mkViolation newId now vd]) \<and>
      last (violations ?after) = mkViolation newId now vd"
    if "?epic"
    using that by (simp add: on_violation_def handleViolation_violations last_slice_100)
  have drop: "?after = s" if "\<not> ?epic"
    using that by (simp add: on_violation_def)
  have kw: "''fortniteclient'' \<in> set epicProcessKeywords"
    by (simp add: epicProcessKeywords_def)
  have sub: "sublist ''fortniteclient'' (toLowerCase (vd_processName vd))"
    if "lowersAscii toLowerCase \<and> vd_processName vd = ''FortniteClient-Win64-Shipping.exe''"
  proof -
    from that have "toLowerCase (vd_processName vd) = ''fortniteclient-win64-shipping.exe''"
      by (simp add: lower_fortnite)
    then show ?thesis by (simp only:) (rule prefix_imp_sublist, simp)
  qed
  have f: "last (violations ?after) = mkViolation newId now vd"
    if h: "lowersAscii toLowerCase \<and> vd_processName vd = ''FortniteClient-Win64-Shipping.exe''"
  proof -
    from sub[OF h] kw have "?epic" unfolding isEpicProcess_iff by blast
    with rec show ?thesis by blast
  qed
  have n: "?after = s" if "lowersAscii toLowerCase \<and> vd_processName vd = ''notepad.exe''"
    using drop lower_notepad_notEpic that by simp
  show ?thesis
    unfolding isEpicProcess_iff[symmetric]
    using rec drop kw sub f n by blast
qed

text \<open>The theorem at the two events of the scenario, with the ASCII lower-casing.\<close>

theorem C7_violation_filter_witness:
  "vd_processName fortniteData = ''FortniteClient-Win64-Shipping.exe'' \<and>
   (\<exists>keyword\<in>set epicProcessKeywords.
       sublist keyword (asciiLower (vd_processName fortniteData))) \<and>
   last (violations (on_violation asciiLower ''v1'' ''t1'' fortniteData fresh)) =
     mkViolation ''v1'' ''t1'' fortniteData \<and>
   vd_processName notepadData = ''notepad.exe'' \<and>
   \<not> (\<exists>keyword\<in>set epicProcessKeywords.
         sublist keyword (asciiLower (vd_processName notepadData))) \<and>
   on_violation asciiLower ''v1'' ''t1'' notepadData fresh = fresh"
proof -
  have h1: "vd_processName fortniteData = ''FortniteClient-Win64-Shipping.exe''"
    by (simp add: fortniteData_def)
  have h2: "vd_processName notepadData = ''notepad.exe''"
    by (simp add: notepadData_def fortniteData_def)
  have h3: "\<not> (\<exists>keyword\<in>set epicProcessKeywords.
         sublist keyword (asciiLower (vd_processName notepadData)))"
    using notepad_notEpic unfolding h2 isEpicProcess_iff .
  note t1 = C7_violation_filter[where toLowerCase=asciiLower and vd=fortniteData
      and newId="''v1''" and now="''t1''" and s=fresh]
  note t2 = C7_violation_filter[where toLowerCase=asciiLower and vd=notepadData
      and newId="''v1''" and now="''t1''" and s=fresh]
  from t1 t2 h1 h2 h3 lowersAscii_asciiLower show ?thesis by blast
qed

section \<open>Querying the journal\<close>

text \<open>A limit that is a count \<open>n\<close>: \<^verbatim>\<open>slice(-n)\<close> starts at the integer \<open>-n\<close>.\<close>

lemma sliceFrom_count: "sliceFrom (negate (Number (real n))) xs = slice (- int n) xs"
  by (simp add: sliceFrom_def negate_def toIntegerOrInfinity_def)

lemma getViolations_count:
  "ipc_getViolations (Number (real n)) s = rev (slice (- int n) (violations s))"
  by (simp add: ipc_getViolations_def sliceFrom_count)

lemma getViolations_pos:
  "0 < n \<Longrightarrow> ipc_getViolations (Number (real n)) s = take n (rev (violations s))"
proof -
  assume "0 < n"
  then have "ipc_getViolations (Number (real n)) s =
      take (length (violations s) - (length (violations s) - n)) (rev (violations s))"
    by (simp add: getViolations_count slice_last rev_drop)
  also have "\<dots> = take n (rev (violations s))"
    by (cases "n \<le> length (violations s)") simp_all
  finally show ?thesis .
qed

lemma getViolations_zero: "ipc_getViolations (Number 0) s = rev (violations s)"
  using getViolations_count[of 0 s] by (simp add: slice_def)

text \<open>
  C10. Querying violations with limit 0 returns every stored violation, newest first, not
  an empty list: with a journal that is not empty the result has more entries than the
  limit. Among the limits that are counts it is the only one: a positive count \<open>n\<close> returns
  the newest \<open>n\<close> entries, so a result longer than the requested count means that the
  count was 0. A missing limit is the limit 50.
\<close>

theorem C10_limit_zero:
  "ipc_getViolations (Number 0) s = rev (violations s) \<and>
   (violations s \<noteq> [] \<longrightarrow> 0 < length (ipc_getViolations (Number 0) s)) \<and>
   (0 < n \<longrightarrow> ipc_getViolations (Number (real n)) s = take n (rev (violations s)) \<and>
              length (ipc_getViolations (Number (real n)) s) \<le> n) \<and>
   (n < length (ipc_getViolations (Number (real n)) s) \<longrightarrow> n = 0) \<and>
   ipc_getViolations Undefined s = ipc_getViolations (Number 50) s"
proof -
  have z: "ipc_getViolations (Number 0) s = rev (violations s)"
    by (rule getViolations_zero)
  have e: "0 < length (ipc_getViolations (Number 0) s)" if "violations s \<noteq> []"
    using that by (simp add: z)
  have p: "ipc_getViolations (Number (real n)) s = take n (rev (violations s)) \<and>
           length (ipc_getViolations (Number (real n)) s) \<le> n" if "0 < n"
    using that by (simp add: getViolations_pos)
  have u: "n = 0" if "n < length (ipc_getViolations (Number (real n)) s)"
    using that p by (cases "n = 0") auto
  have d: "ipc_getViolations Undefined s = ipc_getViolations (Number 50) s"
    by (simp add: ipc_getViolations_def)
  from z e p u d show ?thesis by blast
qed

text \<open>The theorem at the limits 0 and 1 on a journal of two violations.\<close>

theorem C10_limit_zero_witness:
  "violations twoViolations \<noteq> [] \<and> (0 :: nat) < 1 \<and>
   ipc_getViolations (Number 0) twoViolations =
     [mkViolation ''v2'' ''t2'' fortniteData, mkViolation ''v1'' ''t1'' fortniteData] \<and>
   0 < length (ipc_getViolations (Number 0) twoViolations) \<and>
   ipc_getViolations (Number (real 1)) twoViolations = [mkViolation ''v2'' ''t2'' fortniteData] \<and>
   0 < length (ipc_getViolations (Number (real 0)) twoViolations)"
proof -
  have v: "violations twoViolations =
      [mkViolation ''v1'' ''t1'' fortniteData, mkViolation ''v2'' ''t2'' fortniteData]"
    by (simp add: twoViolations_def)
  note t0 = C10_limit_zero[where s=twoViolations and n=0]
  note t1 = C10_limit_zero[where s=twoViolations and n=1]
  have a: "ipc_getViolations (Number 0) twoViolations =
     [mkViolation ''v2'' ''t2'' fortniteData, mkViolation ''v1'' ''t1'' fortniteData]"
    using t0[THEN conjunct1] by (simp add: v)
  have b: "0 < length (ipc_getViolations (Number 0) twoViolations)"
    using t0[THEN conjunct2, THEN conjunct1] by (simp add: v)
  have c: "ipc_getViolations (Number (real 1)) twoViolations =
      [mkViolation ''v2'' ''t2'' fortniteData]"
    using t1[THEN conjunct2, THEN conjunct2, THEN conjunct1] by (simp add: v)
  from a b c v show ?thesis by simp
qed

section \<open>Configuring agents\<close>

lemma isCreate_createCalls: "list_all isCreate (createCalls st a)"
  by (auto simp: createCalls_def isCreate_def list_all_iff split: option.splits)

lemma denied_createCalls: "list_all (\<lambda>p. \<not> allowed p) (created (createCalls st a))"
  by (auto simp: createCalls_def created_def list_all_iff launcherPolicy_def gamePolicy_def
      split: option.splits)

lemma list_all_take: "list_all P xs \<Longrightarrow> list_all P (take n xs)"
  by (auto simp: list_all_iff dest: in_set_takeD)

lemma list_all_prefix: "prefix xs ys \<Longrightarrow> list_all P ys \<Longrightarrow> list_all P xs"
  by (auto simp: list_all_iff dest: set_mono_prefix)

lemma created_take: "created (take n cs) = take (length (created (take n cs))) (created cs)"
proof (induction cs arbitrary: n)
  case Nil
  then show ?case by (simp add: created_def)
next
  case (Cons c cs)
  show ?case
  proof (cases n)
    case 0
    then show ?thesis by (simp add: created_def)
  next
    case (Suc k)
    from Cons.IH[of k] show ?thesis
      by (cases c) (simp_all add: Suc created_def)
  qed
qed

lemma denied_take:
  "list_all (\<lambda>p. \<not> allowed p) (created cs) \<Longrightarrow>
     list_all (\<lambda>p. \<not> allowed p) (created (take n cs))"
  by (subst created_take) (rule list_all_take)

text \<open>
  Configuring one agent issues a prefix of its creates, and succeeds only when the platform
  is known and all of them were issued.
\<close>

lemma configureEpicPolicy_issued:
  "\<exists>new ok. configureEpicPolicy rj a s = (ok, s\<lparr>trace := trace s @ new\<rparr>) \<and>
      prefix new (createCalls (settings s) a) \<and>
      (ok \<longrightarrow> new = createCalls (settings s) a \<and> knownPlatform (a_platform a))"
proof -
  let ?cs = "createCalls (settings s) a"
  obtain n where n: "snd (awaitAll rj ?cs (trace s)) = trace s @ take n ?cs"
    "fst (awaitAll rj ?cs (trace s)) \<longrightarrow> n = length ?cs"
    using awaitAll_take[of rj ?cs "trace s"] by blast
  show ?thesis
    using n
    by (intro exI[of _ "take n ?cs"]
          exI[of _ "knownPlatform (a_platform a) \<and> fst (awaitAll rj ?cs (trace s))"])
       (simp add: configureEpicPolicy_eq take_is_prefix)
qed

lemma configureEpicPolicy_reliable:
  "reliable rj \<Longrightarrow> configureEpicPolicy rj a s =
      (knownPlatform (a_platform a), s\<lparr>trace := trace s @ createCalls (settings s) a\<rparr>)"
  by (simp add: configureEpicPolicy_eq awaitAll_reliable)

lemma configureEach_issued:
  "\<exists>new ok. configureEach rj as s = (ok, s\<lparr>trace := trace s @ new\<rparr>) \<and>
      list_all isCreate new \<and> prefix new (concat (map (createCalls (settings s)) as))"
proof (induction as arbitrary: s)
  case Nil
  show ?case by (intro exI[of _ "[]"] exI[of _ True]) simp
next
  case (Cons a as)
  obtain n1 ok where c: "configureEpicPolicy rj a s = (ok, s\<lparr>trace := trace s @ n1\<rparr>)"
    "prefix n1 (createCalls (settings s) a)" "ok \<longrightarrow> n1 = createCalls (settings s) a"
    using configureEpicPolicy_issued by blast
  have c1: "list_all isCreate n1"
    by (rule list_all_prefix[OF c(2) isCreate_createCalls])
  show ?case
  proof (cases ok)
    case False
    from c(2) have "prefix n1 (concat (map (createCalls (settings s)) (a # as)))"
      by (simp add: prefix_prefix)
    with False c c1 show ?thesis by auto
  next
    case True
    from Cons.IH[of "s\<lparr>trace := trace s @ n1\<rparr>"] obtain new ok' where n:
      "configureEach rj as (s\<lparr>trace := trace s @ n1\<rparr>) =
         (ok', s\<lparr>trace := trace s @ n1 @ new\<rparr>)"
      "list_all isCreate new" "prefix new (concat (map (createCalls (settings s)) as))"
      by auto
    from True c(3) n(3)
    have "prefix (n1 @ new) (concat (map (createCalls (settings s)) (a # as)))" by simp
    with c c1 True n show ?thesis
      by (intro exI[of _ "n1 @ new"] exI[of _ ok']) simp
  qed
qed

text \<open>
  With a service that rejects nothing the loop stops only at an agent whose platform names
  an inherited member.
\<close>

lemma configureEach_reliable:
  "reliable rj \<Longrightarrow> configureEach rj as s =
     (list_all (\<lambda>a. knownPlatform (a_platform a)) as,
      s\<lparr>trace := trace s @
           concat (map (createCalls (settings s))
                    (takeWhile (\<lambda>a. knownPlatform (a_platform a)) as))\<rparr>)"
  by (induction as arbitrary: s)
     (simp_all add: configureEpicPolicy_reliable createCalls_unknown)

section \<open>Discovery\<close>

lemma discoveredAt_eq:
  "discoveredAt rj a s =
     (let tr = awaitAll rj (createCalls (settings s) (deref s a)) (trace s);
          s2 = s\<lparr>arrs := (arrs s)[state_agents s := arrs s ! state_agents s @ [a]],
                 trace := snd tr\<rparr>
      in if knownPlatform (a_platform (deref s a)) \<and> fst tr
         then (Returned, sendToRenderer (EpicAgentDiscovered (deref s a)) s2)
         else (Threw, s2))"
  by (simp add: discoveredAt_def configureEpicPolicy_eq Let_def)

lemma discoveredAt_fields:
  "objs (snd (discoveredAt rj a s)) = objs s"
  "arrs (snd (discoveredAt rj a s)) =
     (arrs s)[state_agents s := arrs s ! state_agents s @ [a]]"
  "state_agents (snd (discoveredAt rj a s)) = state_agents s"
  "agents (snd (discoveredAt rj a s)) = agents s"
  "settings (snd (discoveredAt rj a s)) = settings s"
  "violations (snd (discoveredAt rj a s)) = violations s"
  "trace (snd (discoveredAt rj a s)) =
     snd (awaitAll rj (createCalls (settings s) (deref s a)) (trace s))"
  by (simp_all add: discoveredAt_eq Let_def sendToRenderer_def)

lemma deref_fresh [simp]: "deref (s\<lparr>objs := objs s @ [ag]\<rparr>) (length (objs s)) = ag"
  by (simp add: deref_def)

lemma on_agentDiscovered_eq:
  "on_agentDiscovered rj ag s =
     (let tr = awaitAll rj (createCalls (settings s) ag) (trace s);
          s2 = s\<lparr>objs := objs s @ [ag],
                 arrs := (arrs s)[state_agents s := arrs s ! state_agents s @ [length (objs s)]],
                 trace := snd tr\<rparr>
      in if knownPlatform (a_platform ag) \<and> fst tr
         then (Returned, sendToRenderer (EpicAgentDiscovered ag) s2) else (Threw, s2))"
  by (simp add: on_agentDiscovered_def discoveredAt_eq Let_def)

lemma discovered_fields:
  "objs (snd (on_agentDiscovered rj ag s)) = objs s @ [ag]"
  "arrs (snd (on_agentDiscovered rj ag s)) =
     (arrs s)[state_agents s := arrs s ! state_agents s @ [length (objs s)]]"
  "state_agents (snd (on_agentDiscovered rj ag s)) = state_agents s"
  "agents (snd (on_agentDiscovered rj ag s)) = agents s"
  "settings (snd (on_agentDiscovered rj ag s)) = settings s"
  "violations (snd (on_agentDiscovered rj ag s)) = violations s"
  "trace (snd (on_agentDiscovered rj ag s)) =
     snd (awaitAll rj (createCalls (settings s) ag) (trace s))"
  by (simp_all add: on_agentDiscovered_eq Let_def sendToRenderer_def)

lemma discoveredAt_issued:
  "\<exists>n. issued s (snd (discoveredAt rj a s)) = take n (createCalls (settings s) (deref s a)) \<and>
       (knownPlatform (a_platform (deref s a)) \<longrightarrow> 0 < n)"
proof -
  let ?cs = "createCalls (settings s) (deref s a)"
  obtain n where "snd (awaitAll rj ?cs (trace s)) = trace s @ take n ?cs" "?cs \<noteq> [] \<longrightarrow> 0 < n"
    using awaitAll_take[of rj ?cs "trace s"] by blast
  then show ?thesis
    using createCalls_known[of "deref s a" "settings s"]
    by (auto simp: issued_def discoveredAt_fields)
qed

lemma discovered_issued:
  "\<exists>n. issued s (snd (on_agentDiscovered rj ag s)) = take n (createCalls (settings s) ag) \<and>
       (knownPlatform (a_platform ag) \<longrightarrow> 0 < n)"
  using discoveredAt_issued[of "s\<lparr>objs := objs s @ [ag]\<rparr>" rj "length (objs s)"]
  by (simp add: on_agentDiscovered_def issued_def)

lemma discoveredAt_issued_reliable:
  "reliable rj \<Longrightarrow>
     issued s (snd (discoveredAt rj a s)) = createCalls (settings s) (deref s a)"
  by (simp add: issued_def discoveredAt_fields awaitAll_reliable)

lemma discovered_issued_reliable:
  "reliable rj \<Longrightarrow> issued s (snd (on_agentDiscovered rj ag s)) = createCalls (settings s) ag"
  "reliable rj \<Longrightarrow> knownPlatform (a_platform ag) \<Longrightarrow>
     fst (on_agentDiscovered rj ag s) = Returned"
  by (simp add: issued_def discovered_fields awaitAll_reliable)
     (simp add: on_agentDiscovered_eq awaitAll_reliable)

lemma discoveredAt_wf:
  assumes "wellFormed s" and "a < length (objs s)"
  shows "wellFormed (snd (discoveredAt rj a s))"
proof -
  from assms have sa: "state_agents s < length (arrs s)" and ca: "agents s < length (arrs s)"
    and lt: "\<forall>x\<in>set (arrs s). \<forall>a\<in>set x. a < length (objs s)"
    by (auto simp: wellFormed_def list_all_iff)
  from sa lt have "\<forall>a\<in>set (arrs s ! state_agents s). a < length (objs s)"
    using nth_mem by blast
  with lt assms(2) have "\<forall>x\<in>set ((arrs s)[state_agents s := arrs s ! state_agents s @ [a]]).
      \<forall>a\<in>set x. a < length (objs s)"
    by (auto dest!: set_update_subset_insert[THEN subsetD])
  with sa ca show ?thesis
    by (simp add: wellFormed_def discoveredAt_fields list_all_iff)
qed

lemma wf_alloc: "wellFormed s \<Longrightarrow> wellFormed (s\<lparr>objs := objs s @ [ag]\<rparr>)"
  by (auto simp: wellFormed_def list_all_iff less_Suc_eq)

lemma discovered_wf:
  assumes "wellFormed s"
  shows "wellFormed (snd (on_agentDiscovered rj ag s))"
  unfolding on_agentDiscovered_def
  by (rule discoveredAt_wf[OF wf_alloc[OF assms]]) simp

lemma discoveredAt_stateAgents:
  assumes "wellFormed s"
  shows "stateAgents (snd (discoveredAt rj a s)) = stateAgents s @ [deref s a]"
proof -
  from assms have sa: "state_agents s < length (arrs s)"
    by (auto simp: wellFormed_def)
  then show ?thesis
    by (simp add: stateAgents_def deref_def[abs_def] discoveredAt_fields)
qed

lemma stateAgents_alloc:
  assumes "wellFormed s"
  shows "stateAgents (s\<lparr>objs := objs s @ [ag]\<rparr>) = stateAgents s"
proof -
  from assms have "\<forall>a\<in>set (arrs s ! state_agents s). a < length (objs s)"
    by (auto simp: wellFormed_def list_all_iff)
  then show ?thesis by (simp add: stateAgents_def deref_def[abs_def] nth_append)
qed

lemma discovered_stateAgents:
  assumes "wellFormed s"
  shows "stateAgents (snd (on_agentDiscovered rj ag s)) = stateAgents s @ [ag]"
  unfolding on_agentDiscovered_def
  by (simp add: discoveredAt_stateAgents[OF wf_alloc[OF assms]] stateAgents_alloc[OF assms])

lemma reliable_accepting: "reliable accepting"
  by (simp add: reliable_def accepting_def)

lemma onLoad_fresh: "onLoad accepting None ctx0 (Some []) = Loaded fresh"
  by (simp add: onLoad_def defaultState_def fresh_def)

lemma platform_agentA [simp]: "a_platform agentA = ''win32''"
  by (simp add: agentA_def)

lemma platform_agentB [simp]: "a_platform agentB = ''darwin''"
  by (simp add: agentB_def)

lemma discoveredOnce_eq:
  "discoveredOnce = fresh\<lparr>objs := [agentA], arrs := [[0]],
      trace := createCalls defaultSettings agentA, out := [EpicAgentDiscovered agentA]\<rparr>"
  by (simp add: discoveredOnce_def on_agentDiscovered_eq awaitAll_reliable[OF reliable_accepting]
      fresh_def sendToRenderer_def ctx0_def)

lemma discoveredTwice_eq:
  "discoveredTwice = fresh\<lparr>objs := [agentA, agentA], arrs := [[0, 1]],
      trace := createCalls defaultSettings agentA @ createCalls defaultSettings agentA,
      out := [EpicAgentDiscovered agentA, EpicAgentDiscovered agentA]\<rparr>"
  by (simp add: discoveredTwice_def discoveredOnce_eq on_agentDiscovered_eq
      awaitAll_reliable[OF reliable_accepting] fresh_def sendToRenderer_def ctx0_def)

lemma createCalls_agentA:
  "createCalls defaultSettings agentA = map (CreatePolicy ''A'')
     [\<lparr>processName = ''EpicGamesLauncher.exe'',
       processAlternatives = Some [''EpicGamesLauncher.exe'', ''EpicWebHelper.exe'',
                                   ''UnrealEngineLauncher-Win64-Shipping.exe''],
       allowed = False, p_checkInterval = 30000, metaType = None, metaPlatform = ''win32''\<rparr>,
      \<lparr>processName = ''FortniteClient-Win64-Shipping.exe'', processAlternatives = None,
       allowed = False, p_checkInterval = 30000, metaType = Some ''game'',
       metaPlatform = ''win32''\<rparr>,
      \<lparr>processName = ''FortniteLauncher.exe'', processAlternatives = None,
       allowed = False, p_checkInterval = 30000, metaType = Some ''game'',
       metaPlatform = ''win32''\<rparr>,
      \<lparr>processName = ''RocketLeague.exe'', processAlternatives = None,
       allowed = False, p_checkInterval = 30000, metaType = Some ''game'',
       metaPlatform = ''win32''\<rparr>]"
  by (simp add: createCalls_def defaultSettings_def agentA_def getEpicProcessNames_def
      win32Names_def launcherPolicy_def gamePolicy_def)

lemma created_map_Create [simp]: "created (map (CreatePolicy i) ps) = ps"
  by (induction ps) (simp_all add: created_def)

text \<open>
  C3 as stated fails: for the win32 agent A, discovered by a plugin with the default settings
  and a service that rejects nothing, four policies are created, not five. The web helper
  and the engine helper get no policy of their own, and \<^verbatim>\<open>FortniteLauncher.exe\<close> gets one.
\<close>

theorem C3_win32_policies_counterexample:
  "map processName (created (issued fresh (snd (on_agentDiscovered accepting agentA fresh)))) =
     [''EpicGamesLauncher.exe'', ''FortniteClient-Win64-Shipping.exe'',
      ''FortniteLauncher.exe'', ''RocketLeague.exe''] \<and>
   length (created (issued fresh (snd (on_agentDiscovered accepting agentA fresh)))) \<noteq> 5"
  by (simp add: discovered_issued_reliable[OF reliable_accepting] createCalls_agentA fresh_def
      created_def)

text \<open>
  C3, amended. Every policy created when an agent is discovered has \<open>allowed = False\<close>.
  For a win32 agent at most four policies are created; when no create is rejected and all
  games are monitored they are exactly four, in this order: the launcher
  \<^verbatim>\<open>EpicGamesLauncher.exe\<close> (whose alternatives are the launcher, the web helper and the
  engine helper), \<^verbatim>\<open>FortniteClient-Win64-Shipping.exe\<close>, \<^verbatim>\<open>FortniteLauncher.exe\<close> and
  \<^verbatim>\<open>RocketLeague.exe\<close>; when games are not monitored, the launcher policy alone.
\<close>

theorem C3_win32_policies:
  "list_all (\<lambda>p. \<not> allowed p) (created (issued s (snd (on_agentDiscovered rj ag s)))) \<and>
   (a_platform ag = ''win32'' \<longrightarrow> length (issued s (snd (on_agentDiscovered rj ag s))) \<le> 4) \<and>
   (a_platform ag = ''win32'' \<and> reliable rj \<and> monitorAllGames (settings s) \<longrightarrow>
      issued s (snd (on_agentDiscovered rj ag s)) = map (CreatePolicy (a_id ag))
        [\<lparr>processName = ''EpicGamesLauncher.exe'',
          processAlternatives = Some [''EpicGamesLauncher.exe'', ''EpicWebHelper.exe'',
                                      ''UnrealEngineLauncher-Win64-Shipping.exe''],
          allowed = False, p_checkInterval = checkInterval (settings s), metaType = None,
          metaPlatform = ''win32''\<rparr>,
         \<lparr>processName = ''FortniteClient-Win64-Shipping.exe'', processAlternatives = None,
          allowed = False, p_checkInterval = checkInterval (settings s),
          metaType = Some ''game'', metaPlatform = ''win32''\<rparr>,
         \<lparr>processName = ''FortniteLauncher.exe'', processAlternatives = None,
          allowed = False, p_checkInterval = checkInterval (settings s),
          metaType = Some ''game'', metaPlatform = ''win32''\<rparr>,
         \<lparr>processName = ''RocketLeague.exe'', processAlternatives = None,
          allowed = False, p_checkInterval = checkInterval (settings s),
          metaType = Some ''game'', metaPlatform = ''win32''\<rparr>]) \<and>
   (a_platform ag = ''win32'' \<and> reliable rj \<and> \<not> monitorAllGames (settings s) \<longrightarrow>
      issued s (snd (on_agentDiscovered rj ag s)) =
        [CreatePolicy (a_id ag)
          \<lparr>processName = ''EpicGamesLauncher.exe'',
           processAlternatives = Some [''EpicGamesLauncher.exe'', ''EpicWebHelper.exe'',
                                       ''UnrealEngineLauncher-Win64-Shipping.exe''],
           allowed = False, p_checkInterval = checkInterval (settings s), metaType = None,
           metaPlatform = ''win32''\<rparr>])"
proof -
  obtain n where n: "issued s (snd (on_agentDiscovered rj ag s)) = take n (createCalls (settings s) ag)"
    using discovered_issued by blast
  have a: "list_all (\<lambda>p. \<not> allowed p) (created (issued s (snd (on_agentDiscovered rj ag s))))"
    unfolding n by (rule denied_take[OF denied_createCalls])
  have b: "length (issued s (snd (on_agentDiscovered rj ag s))) \<le> 4" if "a_platform ag = ''win32''"
    unfolding n using that
    by (auto simp: createCalls_def getEpicProcessNames_def win32Names_def)
  show ?thesis
    using a b
    by (simp add: discovered_issued_reliable createCalls_def getEpicProcessNames_def
        win32Names_def launcherPolicy_def gamePolicy_def)
qed

text \<open>
  The theorem at agent A, with all games monitored and with games off.
\<close>

theorem C3_win32_policies_witness:
  "a_platform agentA = ''win32'' \<and> reliable accepting \<and> monitorAllGames (settings fresh) \<and>
   \<not> monitorAllGames (settings (fresh\<lparr>settings := mergeSettings defaultSettings gamesOff\<rparr>)) \<and>
   length (issued fresh (snd (on_agentDiscovered accepting agentA fresh))) = 4 \<and>
   length (issued (fresh\<lparr>settings := mergeSettings defaultSettings gamesOff\<rparr>)
     (snd (on_agentDiscovered accepting agentA
        (fresh\<lparr>settings := mergeSettings defaultSettings gamesOff\<rparr>)))) = 1"
  using C3_win32_policies[where ag=agentA and rj=accepting and s=fresh]
    C3_win32_policies[where ag=agentA and rj=accepting
      and s="fresh\<lparr>settings := mergeSettings defaultSettings gamesOff\<rparr>"]
    reliable_accepting
  by (simp add: agentA_def fresh_def defaultSettings_def mergeSettings_def gamesOff_def)

text \<open>
  C5 as stated fails: after the second delivery of the same event agent A is in the agent
  list twice, the four creates were issued a second time, and the final state differs from
  the state after one delivery.
\<close>

theorem C5_rediscovery_counterexample:
  "stateAgents discoveredOnce = [agentA] \<and> stateAgents discoveredTwice = [agentA, agentA] \<and>
   length (issued discoveredOnce discoveredTwice) = 4 \<and>
   discoveredTwice \<noteq> discoveredOnce"
proof -
  have "objs discoveredTwice \<noteq> objs discoveredOnce"
    by (simp add: discoveredOnce_eq discoveredTwice_eq)
  then have d: "discoveredTwice \<noteq> discoveredOnce" by auto
  have a: "stateAgents discoveredOnce = [agentA]"
    by (simp add: discoveredOnce_eq stateAgents_def deref_def fresh_def)
  have b: "stateAgents discoveredTwice = [agentA, agentA]"
    by (simp add: discoveredTwice_eq stateAgents_def deref_def fresh_def)
  have c: "length (issued discoveredOnce discoveredTwice) = 4"
    by (simp add: discoveredOnce_eq discoveredTwice_eq issued_def createCalls_agentA)
  from a b c d show ?thesis by blast
qed

lemma issued_two:
  assumes "trace s1 = trace s @ xs" and "trace s2 = trace s1 @ ys"
  shows "issued s s1 = xs" and "issued s1 s2 = ys" and "issued s s2 = xs @ ys"
  using assms by (simp_all add: issued_def)

text \<open>
  C5, amended. Discovery is not idempotent. Each delivery of an agent-discovered event
  appends the agent to the agent list, so after two deliveries of the same record it is
  there twice, whether the second event carries a new object or the object of the first.
  Each delivery configures the agent again: for a platform that is not the name of an
  inherited member the second delivery issues calls again; they are creates out of the
  agent's configuration, in its order, and when no create is rejected they are exactly the
  creates of the first delivery. The policies created for the agent are then the same after
  two deliveries as after one.
\<close>

theorem C5_rediscovery:
  "wellFormed s \<longrightarrow>
     stateAgents (snd (on_agentDiscovered rj ag s)) = stateAgents s @ [ag] \<and>
     stateAgents (snd (on_agentDiscovered rj ag (snd (on_agentDiscovered rj ag s)))) =
       stateAgents s @ [ag, ag] \<and>
     stateAgents (snd (discoveredAt rj (length (objs s)) (snd (on_agentDiscovered rj ag s)))) =
       stateAgents s @ [ag, ag] \<and>
     prefix (issued (snd (on_agentDiscovered rj ag s))
               (snd (on_agentDiscovered rj ag (snd (on_agentDiscovered rj ag s)))))
            (createCalls (settings s) ag) \<and>
     prefix (issued (snd (on_agentDiscovered rj ag s))
               (snd (discoveredAt rj (length (objs s)) (snd (on_agentDiscovered rj ag s)))))
            (createCalls (settings s) ag) \<and>
     (knownPlatform (a_platform ag) \<longrightarrow>
        issued (snd (on_agentDiscovered rj ag s))
          (snd (on_agentDiscovered rj ag (snd (on_agentDiscovered rj ag s)))) \<noteq> [] \<and>
        issued (snd (on_agentDiscovered rj ag s))
          (snd (discoveredAt rj (length (objs s)) (snd (on_agentDiscovered rj ag s)))) \<noteq> []) \<and>
     (reliable rj \<longrightarrow>
        issued s (snd (on_agentDiscovered rj ag s)) = createCalls (settings s) ag \<and>
        issued (snd (on_agentDiscovered rj ag s))
          (snd (on_agentDiscovered rj ag (snd (on_agentDiscovered rj ag s)))) =
          createCalls (settings s) ag \<and>
        issued (snd (on_agentDiscovered rj ag s))
          (snd (discoveredAt rj (length (objs s)) (snd (on_agentDiscovered rj ag s)))) =
          createCalls (settings s) ag \<and>
        set (created (issued s
          (snd (on_agentDiscovered rj ag (snd (on_agentDiscovered rj ag s)))))) =
          set (created (issued s (snd (on_agentDiscovered rj ag s)))))"
proof
  assume wf: "wellFormed s"
  let ?s1 = "snd (on_agentDiscovered rj ag s)"
  let ?s2 = "snd (on_agentDiscovered rj ag ?s1)"
  let ?s2' = "snd (discoveredAt rj (length (objs s)) ?s1)"
  let ?cs = "createCalls (settings s) ag"
  have wf1: "wellFormed ?s1" by (rule discovered_wf[OF wf])
  have d1: "deref ?s1 (length (objs s)) = ag"
    by (simp add: deref_def discovered_fields)
  have 1: "stateAgents ?s1 = stateAgents s @ [ag]"
    by (rule discovered_stateAgents[OF wf])
  have 2: "stateAgents ?s2 = stateAgents s @ [ag, ag]"
    using discovered_stateAgents[OF wf1, of rj ag] 1 by simp
  have 3: "stateAgents ?s2' = stateAgents s @ [ag, ag]"
    using discoveredAt_stateAgents[OF wf1, of rj "length (objs s)"] 1 d1 by simp
  obtain n where n: "issued ?s1 ?s2 = take n (createCalls (settings ?s1) ag)"
    "knownPlatform (a_platform ag) \<longrightarrow> 0 < n"
    using discovered_issued by blast
  obtain m where m: "issued ?s1 ?s2' =
      take m (createCalls (settings ?s1) (deref ?s1 (length (objs s))))"
    "knownPlatform (a_platform (deref ?s1 (length (objs s)))) \<longrightarrow> 0 < m"
    using discoveredAt_issued by blast
  have n': "issued ?s1 ?s2 = take n ?cs" using n(1) by (simp add: discovered_fields)
  have m': "issued ?s1 ?s2' = take m ?cs" using m(1) by (simp add: discovered_fields d1)
  have 4: "prefix (issued ?s1 ?s2) ?cs" unfolding n' by (rule take_is_prefix)
  have 5: "prefix (issued ?s1 ?s2') ?cs" unfolding m' by (rule take_is_prefix)
  have 6: "issued ?s1 ?s2 \<noteq> [] \<and> issued ?s1 ?s2' \<noteq> []" if k: "knownPlatform (a_platform ag)"
  proof -
    from createCalls_known[OF k] have "?cs \<noteq> []" .
    moreover from k n(2) m(2) d1 have "0 < n" "0 < m" by simp_all
    ultimately show ?thesis unfolding n' m' by simp
  qed
  have 7: "issued s ?s1 = ?cs \<and> issued ?s1 ?s2 = ?cs \<and> issued ?s1 ?s2' = ?cs \<and>
      set (created (issued s ?s2)) = set (created (issued s ?s1))"
    if r: "reliable rj"
  proof -
    have a: "issued s ?s1 = ?cs" using r by (simp add: discovered_issued_reliable)
    have b: "issued ?s1 ?s2 = ?cs"
      using r by (simp add: discovered_issued_reliable discovered_fields)
    have c: "issued ?s1 ?s2' = ?cs"
      using r by (simp add: discoveredAt_issued_reliable discovered_fields d1)
    have t1: "trace ?s1 = trace s @ ?cs"
      using r by (simp add: discovered_fields awaitAll_reliable)
    have t2: "trace ?s2 = trace ?s1 @ ?cs"
      using r by (simp add: discovered_fields awaitAll_reliable)
    have "issued s ?s2 = ?cs @ ?cs" by (rule issued_two(3)[OF t1 t2])
    then have d: "set (created (issued s ?s2)) = set (created (issued s ?s1))"
      by (simp add: a created_def)
    from a b c d show ?thesis by blast
  qed
  from 1 2 3 4 5 6 7 show "stateAgents ?s1 = stateAgents s @ [ag] \<and>
     stateAgents ?s2 = stateAgents s @ [ag, ag] \<and>
     stateAgents ?s2' = stateAgents s @ [ag, ag] \<and>
     prefix (issued ?s1 ?s2) ?cs \<and> prefix (issued ?s1 ?s2') ?cs \<and>
     (knownPlatform (a_platform ag) \<longrightarrow> issued ?s1 ?s2 \<noteq> [] \<and> issued ?s1 ?s2' \<noteq> []) \<and>
     (reliable rj \<longrightarrow> issued s ?s1 = ?cs \<and> issued ?s1 ?s2 = ?cs \<and> issued ?s1 ?s2' = ?cs \<and>
        set (created (issued s ?s2)) = set (created (issued s ?s1)))"
    by blast
qed

text \<open>The theorem at agent A and the freshly loaded plugin.\<close>

theorem C5_rediscovery_witness:
  "wellFormed fresh \<and> reliable accepting \<and> knownPlatform (a_platform agentA) \<and>
   stateAgents (snd (on_agentDiscovered accepting agentA
      (snd (on_agentDiscovered accepting agentA fresh)))) = stateAgents fresh @ [agentA, agentA] \<and>
   issued (snd (on_agentDiscovered accepting agentA fresh))
      (snd (on_agentDiscovered accepting agentA (snd (on_agentDiscovered accepting agentA fresh))))
      \<noteq> [] \<and>
   issued (snd (on_agentDiscovered accepting agentA fresh))
      (snd (on_agentDiscovered accepting agentA (snd (on_agentDiscovered accepting agentA fresh)))) =
      createCalls (settings fresh) agentA"
proof -
  have w: "wellFormed fresh" by (simp add: wellFormed_def fresh_def)
  have k: "knownPlatform (a_platform agentA)" by simp
  show ?thesis
    using C5_rediscovery[where s=fresh and rj=accepting and ag=agentA] w k reliable_accepting
    by blast
qed

section \<open>Settings updates\<close>

lemma stateAgents_settings [simp]: "stateAgents (s\<lparr>settings := st\<rparr>) = stateAgents s"
  by (simp add: stateAgents_def deref_def[abs_def])

lemma updateSettings_falsy:
  "\<not> truthy (n_checkInterval ns) \<Longrightarrow>
     ipc_updateSettings rj ns s =
       (SuccessSettings (mergeSettings (settings s) ns),
        s\<lparr>settings := mergeSettings (settings s) ns\<rparr>)"
  by (simp add: ipc_updateSettings_def)

lemma updateSettings_issued:
  "\<exists>new r. ipc_updateSettings rj ns s =
       (r, s\<lparr>settings := mergeSettings (settings s) ns, trace := trace s @ new\<rparr>) \<and>
     list_all isCreate new \<and>
     prefix new (concat (map (createCalls (mergeSettings (settings s) ns)) (stateAgents s))) \<and>
     (r = SuccessSettings (mergeSettings (settings s) ns) \<or> r = Rejected)"
proof (cases "truthy (n_checkInterval ns)")
  case False
  then show ?thesis
    by (intro exI[of _ "[]"] exI[of _ "SuccessSettings (mergeSettings (settings s) ns)"])
       (simp add: updateSettings_falsy)
next
  case True
  let ?m = "mergeSettings (settings s) ns"
  let ?s1 = "s\<lparr>settings := ?m\<rparr>"
  obtain new ok where c:
    "configureEach rj (stateAgents ?s1) ?s1 = (ok, ?s1\<lparr>trace := trace ?s1 @ new\<rparr>)"
    "list_all isCreate new"
    "prefix new (concat (map (createCalls (settings ?s1)) (stateAgents ?s1)))"
    using configureEach_issued by blast
  show ?thesis
    using True c
    by (intro exI[of _ new] exI[of _ "if ok then SuccessSettings ?m else Rejected"])
       (simp add: ipc_updateSettings_def)
qed

text \<open>
  With a service that rejects nothing, an update that carries a truthy check interval
  configures the known agents in turn, up to the first whose platform names an inherited
  member, and is rejected exactly when there is such an agent.
\<close>

lemma updateSettings_reliable:
  "truthy (n_checkInterval ns) \<Longrightarrow> reliable rj \<Longrightarrow>
     ipc_updateSettings rj ns s =
       (if list_all (\<lambda>a. knownPlatform (a_platform a)) (stateAgents s)
        then SuccessSettings (mergeSettings (settings s) ns) else Rejected,
        s\<lparr>settings := mergeSettings (settings s) ns,
          trace := trace s @
            concat (map (createCalls (mergeSettings (settings s) ns))
                     (takeWhile (\<lambda>a. knownPlatform (a_platform a)) (stateAgents s)))\<rparr>)"
  by (simp add: ipc_updateSettings_def configureEach_reliable)

lemma takeWhile_all: "list_all P xs \<Longrightarrow> takeWhile P xs = xs"
  by (simp add: list_all_iff)

lemma isCreate_not_isDelete: "list_all isCreate cs \<Longrightarrow> \<not> list_ex isDelete cs"
  by (auto simp: list_all_iff list_ex_iff isCreate_def isDelete_def split: call.splits)

lemma issued_settings_trace [simp]:
  "issued s (s\<lparr>settings := st, trace := trace s @ new\<rparr>) = new"
  "issued s (s\<lparr>settings := st\<rparr>) = []"
  by (simp_all add: issued_def)

lemma stateAgents_discoveredOnce: "stateAgents discoveredOnce = [agentA]"
  by (simp add: discoveredOnce_eq stateAgents_def deref_def fresh_def)

text \<open>
  C4 as stated fails: with agent A discovered under the default settings (four policies
  created), the update that turns \<^verbatim>\<open>monitorAllGames\<close> off succeeds and issues no call at
  all, so no game policy is deleted; sent with every key of the settings, as the settings
  form does, the same toggle issues one call, a create of the launcher policy.
\<close>

theorem C4_settings_update_counterexample:
  "monitorAllGames (settings discoveredOnce) \<and>
   length (created (trace discoveredOnce)) = 4 \<and>
   ipc_updateSettings accepting gamesOff discoveredOnce =
     (SuccessSettings (defaultSettings\<lparr>monitorAllGames := False\<rparr>),
      discoveredOnce\<lparr>settings := defaultSettings\<lparr>monitorAllGames := False\<rparr>\<rparr>) \<and>
   issued discoveredOnce (snd (ipc_updateSettings accepting gamesOff discoveredOnce)) = [] \<and>
   issued discoveredOnce (snd (ipc_updateSettings accepting gamesOffFull discoveredOnce)) =
     [CreatePolicy ''A''
       \<lparr>processName = ''EpicGamesLauncher.exe'',
        processAlternatives = Some [''EpicGamesLauncher.exe'', ''EpicWebHelper.exe'',
                                    ''UnrealEngineLauncher-Win64-Shipping.exe''],
        allowed = False, p_checkInterval = 30000, metaType = None, metaPlatform = ''win32''\<rparr>]"
proof -
  have a: "monitorAllGames (settings discoveredOnce)"
    by (simp add: discoveredOnce_eq fresh_def defaultSettings_def)
  have b: "length (created (trace discoveredOnce)) = 4"
    by (simp add: discoveredOnce_eq createCalls_agentA created_def)
  have c: "ipc_updateSettings accepting gamesOff discoveredOnce =
     (SuccessSettings (defaultSettings\<lparr>monitorAllGames := False\<rparr>),
      discoveredOnce\<lparr>settings := defaultSettings\<lparr>monitorAllGames := False\<rparr>\<rparr>)"
    by (simp add: discoveredOnce_eq ipc_updateSettings_def gamesOff_def truthy_def
        mergeSettings_def fresh_def defaultSettings_def)
  have d: "issued discoveredOnce (snd (ipc_updateSettings accepting gamesOff discoveredOnce)) = []"
    unfolding c by simp
  have t: "truthy (n_checkInterval gamesOffFull)"
    by (simp add: gamesOffFull_def truthy_def)
  have e: "issued discoveredOnce (snd (ipc_updateSettings accepting gamesOffFull discoveredOnce)) =
     [CreatePolicy ''A''
       \<lparr>processName = ''EpicGamesLauncher.exe'',
        processAlternatives = Some [''EpicGamesLauncher.exe'', ''EpicWebHelper.exe'',
                                    ''UnrealEngineLauncher-Win64-Shipping.exe''],
        allowed = False, p_checkInterval = 30000, metaType = None, metaPlatform = ''win32''\<rparr>]"
    by (simp add: updateSettings_reliable[OF t reliable_accepting] stateAgents_discoveredOnce)
       (simp add: discoveredOnce_eq fresh_def createCalls_def
          mergeSettings_def gamesOffFull_def defaultSettings_def agentA_def launcherPolicy_def
          getEpicProcessNames_def win32Names_def)
  from a b c d e show ?thesis by blast
qed

text \<open>
  C4, amended. A settings update stores the merge of the old settings and the given keys
  and never issues a delete: every call it issues is a create, and the calls are an
  initial part of the creates that configure the known agents in turn under the merged
  settings. An update without a check interval, or with the check interval 0, issues no
  call and succeeds, so turning \<^verbatim>\<open>monitorAllGames\<close> off leaves the game policies of every
  agent in place. An update with a non-zero check interval configures the known agents
  again: when no create is rejected, the launcher create and, if all games are monitored,
  the game creates, agent by agent, up to the first agent (if there is one) whose platform
  string names an inherited member, where the handler throws; with no such agent, for
  every known agent.
\<close>

theorem C4_settings_update:
  "settings (snd (ipc_updateSettings rj ns s)) = mergeSettings (settings s) ns \<and>
   list_all isCreate (issued s (snd (ipc_updateSettings rj ns s))) \<and>
   \<not> list_ex isDelete (issued s (snd (ipc_updateSettings rj ns s))) \<and>
   prefix (issued s (snd (ipc_updateSettings rj ns s)))
     (concat (map (createCalls (mergeSettings (settings s) ns)) (stateAgents s))) \<and>
   (n_checkInterval ns = None \<or> n_checkInterval ns = Some 0 \<longrightarrow>
      issued s (snd (ipc_updateSettings rj ns s)) = [] \<and>
      fst (ipc_updateSettings rj ns s) = SuccessSettings (mergeSettings (settings s) ns)) \<and>
   (truthy (n_checkInterval ns) \<and> reliable rj \<longrightarrow>
      issued s (snd (ipc_updateSettings rj ns s)) =
        concat (map (createCalls (mergeSettings (settings s) ns))
                 (takeWhile (\<lambda>a. knownPlatform (a_platform a)) (stateAgents s)))) \<and>
   (truthy (n_checkInterval ns) \<and> reliable rj \<and>
    list_all (\<lambda>a. knownPlatform (a_platform a)) (stateAgents s) \<longrightarrow>
      issued s (snd (ipc_updateSettings rj ns s)) =
        concat (map (createCalls (mergeSettings (settings s) ns)) (stateAgents s)))"
proof -
  let ?u = "ipc_updateSettings rj ns s"
  let ?m = "mergeSettings (settings s) ns"
  let ?K = "\<lambda>a. knownPlatform (a_platform a)"
  obtain new r where u: "?u = (r, s\<lparr>settings := ?m, trace := trace s @ new\<rparr>)"
     "list_all isCreate new" "prefix new (concat (map (createCalls ?m) (stateAgents s)))"
    using updateSettings_issued by blast
  have a: "settings (snd ?u) = ?m" using u by simp
  have b: "list_all isCreate (issued s (snd ?u))" using u by simp
  have p: "prefix (issued s (snd ?u)) (concat (map (createCalls ?m) (stateAgents s)))"
    using u by simp
  have c: "issued s (snd ?u) = [] \<and> fst ?u = SuccessSettings ?m"
    if "n_checkInterval ns = None \<or> n_checkInterval ns = Some 0"
  proof -
    from that have "\<not> truthy (n_checkInterval ns)" by (auto simp: truthy_def)
    then show ?thesis by (simp add: updateSettings_falsy)
  qed
  have d: "issued s (snd ?u) = concat (map (createCalls ?m) (takeWhile ?K (stateAgents s)))"
    if "truthy (n_checkInterval ns) \<and> reliable rj"
    using that by (simp add: updateSettings_reliable)
  have e: "issued s (snd ?u) = concat (map (createCalls ?m) (stateAgents s))"
    if "truthy (n_checkInterval ns) \<and> reliable rj \<and> list_all ?K (stateAgents s)"
    using that d by (simp add: takeWhile_all)
  from a b isCreate_not_isDelete[OF b] p c d e show ?thesis by blast
qed

text \<open>The theorem at the toggle alone and at an update that carries a check interval.\<close>

theorem C4_settings_update_witness:
  "n_checkInterval gamesOff = None \<and>
   issued discoveredOnce (snd (ipc_updateSettings accepting gamesOff discoveredOnce)) = [] \<and>
   n_checkInterval intervalZero = Some 0 \<and>
   issued discoveredOnce (snd (ipc_updateSettings accepting intervalZero discoveredOnce)) = [] \<and>
   truthy (n_checkInterval intervalMinus5) \<and> reliable accepting \<and>
   list_all (\<lambda>a. knownPlatform (a_platform a)) (stateAgents discoveredOnce) \<and>
   issued discoveredOnce (snd (ipc_updateSettings accepting intervalMinus5 discoveredOnce)) =
     concat (map (createCalls (mergeSettings (settings discoveredOnce) intervalMinus5))
       (stateAgents discoveredOnce))"
proof -
  have h1: "n_checkInterval gamesOff = None" by (simp add: gamesOff_def)
  have h2: "n_checkInterval intervalZero = Some 0" by (simp add: intervalZero_def)
  have h3: "truthy (n_checkInterval intervalMinus5)"
    by (simp add: intervalMinus5_def truthy_def)
  have h4: "list_all (\<lambda>a. knownPlatform (a_platform a)) (stateAgents discoveredOnce)"
    by (simp add: stateAgents_discoveredOnce)
  show ?thesis
    using C4_settings_update[where ns=gamesOff and s=discoveredOnce and rj=accepting]
      C4_settings_update[where ns=intervalZero and s=discoveredOnce and rj=accepting]
      C4_settings_update[where ns=intervalMinus5 and s=discoveredOnce and rj=accepting]
      reliable_accepting h1 h2 h3 h4
    by blast
qed

text \<open>
  C8 as stated fails: the updates with check interval \<open>-5\<close> and \<open>0\<close> return success, and
  after the first the stored check interval is \<open>-5\<close>, not the previous 30000.
\<close>

theorem C8_interval_not_validated_counterexample:
  "checkInterval (settings discoveredOnce) = 30000 \<and>
   fst (ipc_updateSettings accepting intervalMinus5 discoveredOnce) =
     SuccessSettings (defaultSettings\<lparr>checkInterval := - 5\<rparr>) \<and>
   settings (snd (ipc_updateSettings accepting intervalMinus5 discoveredOnce)) =
     defaultSettings\<lparr>checkInterval := - 5\<rparr> \<and>
   fst (ipc_updateSettings accepting intervalZero discoveredOnce) =
     SuccessSettings (defaultSettings\<lparr>checkInterval := 0\<rparr>)"
proof -
  have t: "truthy (n_checkInterval intervalMinus5)"
    by (simp add: intervalMinus5_def truthy_def)
  have m: "mergeSettings (settings discoveredOnce) intervalMinus5 =
      defaultSettings\<lparr>checkInterval := - 5\<rparr>"
    by (simp add: discoveredOnce_eq fresh_def mergeSettings_def intervalMinus5_def
        defaultSettings_def)
  have a: "checkInterval (settings discoveredOnce) = 30000"
    by (simp add: discoveredOnce_eq fresh_def defaultSettings_def)
  have b: "fst (ipc_updateSettings accepting intervalMinus5 discoveredOnce) =
     SuccessSettings (defaultSettings\<lparr>checkInterval := - 5\<rparr>)"
    by (simp add: updateSettings_reliable[OF t reliable_accepting] stateAgents_discoveredOnce m)
  have c: "settings (snd (ipc_updateSettings accepting intervalMinus5 discoveredOnce)) =
     defaultSettings\<lparr>checkInterval := - 5\<rparr>"
    by (simp add: updateSettings_reliable[OF t reliable_accepting] m)
  have d: "fst (ipc_updateSettings accepting intervalZero discoveredOnce) =
     SuccessSettings (defaultSettings\<lparr>checkInterval := 0\<rparr>)"
    by (simp add: discoveredOnce_eq ipc_updateSettings_def intervalMinus5_def intervalZero_def
        truthy_def mergeSettings_def fresh_def defaultSettings_def)
  from a b c d show ?thesis by blast
qed

text \<open>
  C8, amended. A check interval that is not positive is not validated: the stored settings
  become the merged settings, with the given interval, in every case. The reply is never a
  validation error: it is success with the merged settings, or the handler's promise
  rejects because configuring an agent threw. With interval 0 nothing is pushed and the
  update succeeds. With a negative interval the known agents are configured again with
  that interval; when no create is rejected the update succeeds exactly when no known
  agent has a platform string that names an inherited member, and then every known agent
  was configured.
\<close>

theorem C8_interval_not_validated:
  "n_checkInterval ns = Some i \<and> i \<le> 0 \<longrightarrow>
     settings (snd (ipc_updateSettings rj ns s)) = mergeSettings (settings s) ns \<and>
     checkInterval (settings (snd (ipc_updateSettings rj ns s))) = i \<and>
     (fst (ipc_updateSettings rj ns s) = SuccessSettings (mergeSettings (settings s) ns) \<or>
      fst (ipc_updateSettings rj ns s) = Rejected) \<and>
     (i = 0 \<longrightarrow>
        fst (ipc_updateSettings rj ns s) = SuccessSettings (mergeSettings (settings s) ns) \<and>
        issued s (snd (ipc_updateSettings rj ns s)) = []) \<and>
     (i < 0 \<and> reliable rj \<longrightarrow>
        (fst (ipc_updateSettings rj ns s) = SuccessSettings (mergeSettings (settings s) ns)
           \<longleftrightarrow> list_all (\<lambda>a. knownPlatform (a_platform a)) (stateAgents s)) \<and>
        issued s (snd (ipc_updateSettings rj ns s)) =
          concat (map (createCalls (mergeSettings (settings s) ns))
                   (takeWhile (\<lambda>a. knownPlatform (a_platform a)) (stateAgents s)))) \<and>
     (i < 0 \<and> reliable rj \<and> list_all (\<lambda>a. knownPlatform (a_platform a)) (stateAgents s) \<longrightarrow>
        fst (ipc_updateSettings rj ns s) = SuccessSettings (mergeSettings (settings s) ns) \<and>
        issued s (snd (ipc_updateSettings rj ns s)) =
          concat (map (createCalls (mergeSettings (settings s) ns)) (stateAgents s)))"
proof
  assume h: "n_checkInterval ns = Some i \<and> i \<le> 0"
  let ?u = "ipc_updateSettings rj ns s"
  let ?m = "mergeSettings (settings s) ns"
  let ?K = "\<lambda>a. knownPlatform (a_platform a)"
  obtain new r where u: "?u = (r, s\<lparr>settings := ?m, trace := trace s @ new\<rparr>)"
     "r = SuccessSettings ?m \<or> r = Rejected"
    using updateSettings_issued by blast
  have a: "settings (snd ?u) = ?m" using u by simp
  have b: "checkInterval (settings (snd ?u)) = i"
    using h by (simp add: a mergeSettings_def)
  have c: "fst ?u = SuccessSettings ?m \<or> fst ?u = Rejected" using u by simp
  have d: "fst ?u = SuccessSettings ?m \<and> issued s (snd ?u) = []" if "i = 0"
    using that h by (simp add: updateSettings_falsy truthy_def)
  have e: "(fst ?u = SuccessSettings ?m \<longleftrightarrow> list_all ?K (stateAgents s)) \<and>
      issued s (snd ?u) = concat (map (createCalls ?m) (takeWhile ?K (stateAgents s)))"
    if "i < 0 \<and> reliable rj"
    using that h by (simp add: updateSettings_reliable truthy_def)
  have f: "fst ?u = SuccessSettings ?m \<and>
      issued s (snd ?u) = concat (map (createCalls ?m) (stateAgents s))"
    if "i < 0 \<and> reliable rj \<and> list_all ?K (stateAgents s)"
    using that e by (simp add: takeWhile_all)
  from a b c d e f show "settings (snd ?u) = ?m \<and> checkInterval (settings (snd ?u)) = i \<and>
     (fst ?u = SuccessSettings ?m \<or> fst ?u = Rejected) \<and>
     (i = 0 \<longrightarrow> fst ?u = SuccessSettings ?m \<and> issued s (snd ?u) = []) \<and>
     (i < 0 \<and> reliable rj \<longrightarrow>
        (fst ?u = SuccessSettings ?m \<longleftrightarrow> list_all ?K (stateAgents s)) \<and>
        issued s (snd ?u) = concat (map (createCalls ?m) (takeWhile ?K (stateAgents s)))) \<and>
     (i < 0 \<and> reliable rj \<and> list_all ?K (stateAgents s) \<longrightarrow>
        fst ?u = SuccessSettings ?m \<and>
        issued s (snd ?u) = concat (map (createCalls ?m) (stateAgents s)))"
    by blast
qed

text \<open>The theorem at the intervals \<open>-5\<close> and \<open>0\<close>.\<close>

theorem C8_interval_not_validated_witness:
  "n_checkInterval intervalMinus5 = Some (- 5) \<and> (- 5 :: int) < 0 \<and> reliable accepting \<and>
   list_all (\<lambda>a. knownPlatform (a_platform a)) (stateAgents discoveredOnce) \<and>
   checkInterval (settings (snd (ipc_updateSettings accepting intervalMinus5 discoveredOnce))) = - 5 \<and>
   fst (ipc_updateSettings accepting intervalMinus5 discoveredOnce) =
     SuccessSettings (mergeSettings (settings discoveredOnce) intervalMinus5) \<and>
   n_checkInterval intervalZero = Some 0 \<and>
   fst (ipc_updateSettings accepting intervalZero discoveredOnce) =
     SuccessSettings (mergeSettings (settings discoveredOnce) intervalZero)"
proof -
  have h1: "n_checkInterval intervalMinus5 = Some (- 5)" by (simp add: intervalMinus5_def)
  have h2: "n_checkInterval intervalZero = Some 0" by (simp add: intervalZero_def)
  have h3: "(- 5 :: int) \<le> 0" "(- 5 :: int) < 0" "(0 :: int) \<le> 0" by simp_all
  have h4: "list_all (\<lambda>a. knownPlatform (a_platform a)) (stateAgents discoveredOnce)"
    by (simp add: stateAgents_discoveredOnce)
  show ?thesis
    using C8_interval_not_validated[where ns=intervalMinus5 and i="- 5" and s=discoveredOnce
        and rj=accepting]
      C8_interval_not_validated[where ns=intervalZero and i=0 and s=discoveredOnce
        and rj=accepting]
      reliable_accepting h1 h2 h3 h4
    by blast
qed

section \<open>Unlinking\<close>

lemma find_stateAgents_Some:
  assumes "agentId \<in> set (map a_id (stateAgents s))"
  shows "\<exists>a. find (\<lambda>a. a_id (deref s a) = agentId) (arrs s ! state_agents s) = Some a \<and>
             a \<in> set (arrs s ! state_agents s) \<and> a_id (deref s a) = agentId"
proof -
  let ?f = "find (\<lambda>a. a_id (deref s a) = agentId) (arrs s ! state_agents s)"
  from assms have "?f \<noteq> None" by (simp add: find_stateAgents)
  then obtain a where a: "?f = Some a" by auto
  then have "a \<in> set (arrs s ! state_agents s) \<and> a_id (deref s a) = agentId"
    by (auto simp: find_Some_iff)
  with a show ?thesis by blast
qed

lemma wf_stateAgents_addr:
  "wellFormed s \<Longrightarrow> a \<in> set (arrs s ! state_agents s) \<Longrightarrow> a < length (objs s)"
  by (auto simp: wellFormed_def list_all_iff)

text \<open>
  C9. Unlinking an agent whose identifier no known agent has returns the not-found reply
  and leaves the plugin state as it was. Unlinking a known agent returns success and
  clears the binding of the first agent object of the list with that identifier; nothing
  else changes: every other agent object is as before, no call is issued to the agent
  service (so the agent's policies are neither reset nor created again), and the agent
  list, the settings and the journal are untouched.
\<close>

theorem C9_unlink:
  "(agentId \<notin> set (map a_id (stateAgents s)) \<longrightarrow>
      ipc_unlinkAgent agentId s = (NotFound ''Agent not found'', s)) \<and>
   (wellFormed s \<and> agentId \<in> set (map a_id (stateAgents s)) \<longrightarrow>
      (\<exists>a. a \<in> set (arrs s ! state_agents s) \<and> a_id (deref s a) = agentId \<and>
           ipc_unlinkAgent agentId s =
             (Success, s\<lparr>objs := (objs s)[a := (deref s a)\<lparr>a_childId := None\<rparr>]\<rparr>) \<and>
           deref (snd (ipc_unlinkAgent agentId s)) a = (deref s a)\<lparr>a_childId := None\<rparr> \<and>
           (\<forall>b. b \<noteq> a \<longrightarrow> deref (snd (ipc_unlinkAgent agentId s)) b = deref s b)) \<and>
      issued s (snd (ipc_unlinkAgent agentId s)) = [] \<and>
      trace (snd (ipc_unlinkAgent agentId s)) = trace s \<and>
      arrs (snd (ipc_unlinkAgent agentId s)) = arrs s \<and>
      settings (snd (ipc_unlinkAgent agentId s)) = settings s \<and>
      violations (snd (ipc_unlinkAgent agentId s)) = violations s)"
proof (intro conjI impI)
  assume "agentId \<notin> set (map a_id (stateAgents s))"
  then have "find (\<lambda>a. a_id (deref s a) = agentId) (arrs s ! state_agents s) = None"
    using find_stateAgents by blast
  then show "ipc_unlinkAgent agentId s = (NotFound ''Agent not found'', s)"
    by (simp add: ipc_unlinkAgent_def)
next
  assume h: "wellFormed s \<and> agentId \<in> set (map a_id (stateAgents s))"
  then obtain a where a: "find (\<lambda>a. a_id (deref s a) = agentId) (arrs s ! state_agents s) = Some a"
    "a \<in> set (arrs s ! state_agents s)" "a_id (deref s a) = agentId"
    using find_stateAgents_Some by blast
  have lt: "a < length (objs s)" using h a(2) by (simp add: wf_stateAgents_addr)
  have u: "ipc_unlinkAgent agentId s =
      (Success, s\<lparr>objs := (objs s)[a := (deref s a)\<lparr>a_childId := None\<rparr>]\<rparr>)"
    using a(1) by (simp add: ipc_unlinkAgent_def)
  have "deref (snd (ipc_unlinkAgent agentId s)) a = (deref s a)\<lparr>a_childId := None\<rparr>"
    using lt by (simp add: u deref_def)
  moreover have "\<forall>b. b \<noteq> a \<longrightarrow> deref (snd (ipc_unlinkAgent agentId s)) b = deref s b"
    by (simp add: u deref_def)
  ultimately show "\<exists>a. a \<in> set (arrs s ! state_agents s) \<and> a_id (deref s a) = agentId \<and>
           ipc_unlinkAgent agentId s =
             (Success, s\<lparr>objs := (objs s)[a := (deref s a)\<lparr>a_childId := None\<rparr>]\<rparr>) \<and>
           deref (snd (ipc_unlinkAgent agentId s)) a = (deref s a)\<lparr>a_childId := None\<rparr> \<and>
           (\<forall>b. b \<noteq> a \<longrightarrow> deref (snd (ipc_unlinkAgent agentId s)) b = deref s b)"
    using a u by blast
  show "issued s (snd (ipc_unlinkAgent agentId s)) = []" by (simp add: u)
  show "trace (snd (ipc_unlinkAgent agentId s)) = trace s" by (simp add: u)
  show "arrs (snd (ipc_unlinkAgent agentId s)) = arrs s" by (simp add: u)
  show "settings (snd (ipc_unlinkAgent agentId s)) = settings s" by (simp add: u)
  show "violations (snd (ipc_unlinkAgent agentId s)) = violations s" by (simp add: u)
qed

lemma epicAllowed_quota10: "epicAllowed quota10"
  by (simp add: epicAllowed_def quota10_def)

lemma a_id_agentA: "a_id agentA = ''A''"
  by (simp add: agentA_def)

lemma linkedA_eq:
  "linkedA = discoveredOnce\<lparr>objs := [agentA\<lparr>a_childId := Some ''c1''\<rparr>],
     trace := createCalls defaultSettings agentA @
              updateCalls defaultSettings (agentA\<lparr>a_childId := Some ''c1''\<rparr>) True\<rparr>"
  by (simp add: linkedA_def ipc_linkAgent_def discoveredOnce_eq fresh_def deref_def
      updateEpicPolicy_eq awaitAll_reliable[OF reliable_accepting] epicAllowed_quota10
      a_id_agentA)

text \<open>
  The theorem at the plugin with agent A linked: unlinking the unknown \<open>Z\<close> and the known
  \<open>A\<close>.
\<close>

theorem C9_unlink_witness:
  "wellFormed linkedA \<and> ''A'' \<in> set (map a_id (stateAgents linkedA)) \<and>
   ''Z'' \<notin> set (map a_id (stateAgents linkedA)) \<and>
   ipc_unlinkAgent ''Z'' linkedA = (NotFound ''Agent not found'', linkedA) \<and>
   trace (snd (ipc_unlinkAgent ''A'' linkedA)) = trace linkedA \<and>
   (\<exists>a. a \<in> set (arrs linkedA ! state_agents linkedA) \<and>
        deref (snd (ipc_unlinkAgent ''A'' linkedA)) a = (deref linkedA a)\<lparr>a_childId := None\<rparr>)"
proof -
  have w: "wellFormed linkedA"
    by (simp add: linkedA_eq discoveredOnce_eq fresh_def wellFormed_def)
  have k: "''A'' \<in> set (map a_id (stateAgents linkedA))"
    by (simp add: linkedA_eq discoveredOnce_eq fresh_def stateAgents_def deref_def agentA_def)
  have z: "''Z'' \<notin> set (map a_id (stateAgents linkedA))"
    by (simp add: linkedA_eq discoveredOnce_eq fresh_def stateAgents_def deref_def agentA_def)
  show ?thesis
    using C9_unlink[where agentId="''A''" and s=linkedA]
      C9_unlink[where agentId="''Z''" and s=linkedA] w k z
    by blast
qed

section \<open>Quota changes and the captured agent array\<close>

lemma onLoad_agentB: "onLoad accepting None ctx0 (Some [agentB]) = Loaded loadedB"
  by (simp add: onLoad_def defaultState_def fresh_def loadedB_def
      configureEpicPolicy_reliable[OF reliable_accepting])

lemma afterLoss_eq:
  "afterLoss = loadedB\<lparr>arrs := [[0], []], state_agents := 1, out := [EpicAgentLost ''B'']\<rparr>"
  by (simp add: afterLoss_def on_agentLost_def loadedB_def fresh_def sendToRenderer_def ctx0_def
      deref_def agentB_def)

lemma afterDiscovery_eq:
  "afterDiscovery = loadedB\<lparr>objs := [agentB, agentA], arrs := [[0], [1]], state_agents := 1,
     trace := createCalls defaultSettings agentB @ createCalls defaultSettings agentA,
     out := [EpicAgentLost ''B'', EpicAgentDiscovered agentA]\<rparr>"
  by (simp add: afterDiscovery_def afterLoss_eq on_agentDiscovered_eq loadedB_def
      awaitAll_reliable[OF reliable_accepting] fresh_def sendToRenderer_def ctx0_def)

lemma afterLink_eq:
  "afterLink = afterDiscovery\<lparr>objs := [agentB, agentA\<lparr>a_childId := Some ''c1''\<rparr>],
     trace := createCalls defaultSettings agentB @ createCalls defaultSettings agentA @
              updateCalls defaultSettings (agentA\<lparr>a_childId := Some ''c1''\<rparr>) True\<rparr>"
  by (simp add: afterLink_def ipc_linkAgent_def afterDiscovery_eq loadedB_def fresh_def deref_def
      updateEpicPolicy_eq awaitAll_reliable[OF reliable_accepting] epicAllowed_quota10
      a_id_agentA agentB_def)

text \<open>
  C6 fails on this run: the plugin loads with agent B (bound to child c1), B is lost, agent A
  is discovered and linked to c1, which pushes \<open>allowed = True\<close> to A. Agent A is then the
  one known agent and is bound to c1, but the captured array still holds the lost agent B
  only: a quota change of c1 to a paused state pushes the flag to B and issues no update
  for A, whose policies stay allowed.
\<close>

theorem C6_quota_change_misses_agent:
  "onLoad accepting None ctx0 (Some [agentB]) = Loaded loadedB \<and>
   stateAgents afterLink = [agentA\<lparr>a_childId := Some ''c1''\<rparr>] \<and>
   issued afterDiscovery afterLink =
     [UpdatePolicy ''A'' ''EpicGamesLauncher.exe'' True,
      UpdatePolicy ''A'' ''FortniteClient-Win64-Shipping.exe'' True,
      UpdatePolicy ''A'' ''FortniteLauncher.exe'' True,
      UpdatePolicy ''A'' ''RocketLeague.exe'' True] \<and>
   capturedAgents afterLink = [agentB] \<and>
   issued afterLink (on_stateChange accepting ''c1'' paused10 afterLink) =
     [UpdatePolicy ''B'' ''EpicGamesLauncher'' False,
      UpdatePolicy ''B'' ''Fortnite.app'' False,
      UpdatePolicy ''B'' ''RocketLeague.app'' False]"
proof -
  have b: "stateAgents afterLink = [agentA\<lparr>a_childId := Some ''c1''\<rparr>]"
    by (simp add: afterLink_eq afterDiscovery_eq loadedB_def fresh_def stateAgents_def deref_def)
  have c: "issued afterDiscovery afterLink =
     [UpdatePolicy ''A'' ''EpicGamesLauncher.exe'' True,
      UpdatePolicy ''A'' ''FortniteClient-Win64-Shipping.exe'' True,
      UpdatePolicy ''A'' ''FortniteLauncher.exe'' True,
      UpdatePolicy ''A'' ''RocketLeague.exe'' True]"
    by (simp add: afterLink_eq afterDiscovery_eq issued_def)
       (simp add: updateCalls_def defaultSettings_def agentA_def getEpicProcessNames_def
          win32Names_def)
  have d: "capturedAgents afterLink = [agentB]"
    by (simp add: afterLink_eq afterDiscovery_eq loadedB_def fresh_def capturedAgents_def
        deref_def)
  have st: "settings afterLink = defaultSettings"
    by (simp add: afterLink_eq afterDiscovery_eq loadedB_def fresh_def)
  have "on_stateChange accepting ''c1'' paused10 afterLink =
      afterLink\<lparr>trace := trace afterLink @ updateCalls defaultSettings agentB (epicAllowed paused10)\<rparr>"
    by (simp add: on_stateChange_def d updateEpicPolicy_eq awaitAll_reliable[OF reliable_accepting]
        st) (simp add: agentB_def)
  then have e: "issued afterLink (on_stateChange accepting ''c1'' paused10 afterLink) =
     [UpdatePolicy ''B'' ''EpicGamesLauncher'' False,
      UpdatePolicy ''B'' ''Fortnite.app'' False,
      UpdatePolicy ''B'' ''RocketLeague.app'' False]"
    by (simp add: updateCalls_def defaultSettings_def agentB_def getEpicProcessNames_def
        darwinNames_def epicAllowed_def paused10_def)
  from onLoad_agentB b c d e show ?thesis by blast
qed

text \<open>
  The captured array is the agent list as long as both references are the same, which
  discovery preserves and the loss of an agent ends.
\<close>

lemma discovered_keeps_alias:
  "agents s = state_agents s \<Longrightarrow>
     capturedAgents (snd (on_agentDiscovered rj ag s)) =
     stateAgents (snd (on_agentDiscovered rj ag s))"
  by (simp add: capturedAgents_def stateAgents_def discovered_fields)

lemma lost_breaks_alias:
  "wellFormed s \<Longrightarrow> agents (on_agentLost agentId s) \<noteq> state_agents (on_agentLost agentId s)"
  by (auto simp: on_agentLost_def sendToRenderer_def wellFormed_def Let_def)

section \<open>The store stays well formed\<close>

text \<open>
  The plugin that \<^verbatim>\<open>onLoad\<close> returns is well formed, and every handler keeps it so.
\<close>

lemma wf_frame [simp]:
  "wellFormed (s\<lparr>trace := t\<rparr>) = wellFormed s"
  "wellFormed (s\<lparr>settings := st\<rparr>) = wellFormed s"
  "wellFormed (s\<lparr>out := ou\<rparr>) = wellFormed s"
  "wellFormed (s\<lparr>violations := vs\<rparr>) = wellFormed s"
  "wellFormed (s\<lparr>enabled := e\<rparr>) = wellFormed s"
  by (simp_all add: wellFormed_def)

lemma wf_objs_update: "wellFormed s \<Longrightarrow> wellFormed (s\<lparr>objs := (objs s)[a := x]\<rparr>)"
  by (simp add: wellFormed_def)

lemma updateEpicPolicy_wf: "wellFormed (updateEpicPolicy rj a q s) = wellFormed s"
  by (simp add: updateEpicPolicy_eq)

lemma updateEach_wf: "wellFormed (updateEach rj q as s) = wellFormed s"
  by (induction as arbitrary: s) (simp_all add: updateEpicPolicy_wf)

lemma configureEach_wf: "wellFormed (snd (configureEach rj as s)) = wellFormed s"
proof -
  obtain new ok where "configureEach rj as s = (ok, s\<lparr>trace := trace s @ new\<rparr>)"
    using configureEach_issued by blast
  then show ?thesis by simp
qed

lemma onLoad_wf:
  assumes "onLoad rj loadedState context listed = Loaded s"
  shows "wellFormed s"
proof -
  from assms obtain found where f: "listed = Some found"
    by (cases listed) (simp_all add: onLoad_def Let_def)
  let ?st = "case loadedState of None \<Rightarrow> defaultState | Some l \<Rightarrow> l"
  let ?s0 = "\<lparr>objs = found, arrs = [[0 ..< length found]], state_agents = 0, agents = 0,
     violations = ps_violations ?st, settings = ps_settings ?st, enabled = ps_enabled ?st,
     ctx = context, trace = [], out = []\<rparr>"
  have w0: "wellFormed ?s0" by (simp add: wellFormed_def list_all_iff)
  from assms f have "s = (snd (configureEach rj found ?s0))\<lparr>enabled := True\<rparr>"
    by (simp add: onLoad_def Let_def split: prod.splits if_splits)
  with w0 show ?thesis by (simp add: configureEach_wf)
qed

lemma lost_wf:
  assumes "wellFormed s"
  shows "wellFormed (on_agentLost agentId s)"
proof -
  from assms have lt: "\<forall>x\<in>set (arrs s). \<forall>a\<in>set x. a < length (objs s)"
    and sa: "state_agents s < length (arrs s)" and ca: "agents s < length (arrs s)"
    by (auto simp: wellFormed_def list_all_iff)
  from sa lt have "\<forall>a\<in>set (arrs s ! state_agents s). a < length (objs s)"
    using nth_mem by blast
  with lt ca show ?thesis
    by (auto simp: on_agentLost_def sendToRenderer_def wellFormed_def Let_def list_all_iff)
qed

lemma stateChange_wf: "wellFormed (on_stateChange rj childId q s) = wellFormed s"
  by (simp add: on_stateChange_def updateEach_wf)

lemma handleViolation_wf: "wellFormed (handleViolation newId now vd s) = wellFormed s"
  by (simp add: handleViolation_def Let_def)

lemma violation_wf: "wellFormed (on_violation toLowerCase newId now vd s) = wellFormed s"
  by (simp add: on_violation_def handleViolation_wf)

lemma updateSettings_wf: "wellFormed (snd (ipc_updateSettings rj ns s)) = wellFormed s"
proof -
  obtain new r where "ipc_updateSettings rj ns s =
       (r, s\<lparr>settings := mergeSettings (settings s) ns, trace := trace s @ new\<rparr>)"
    using updateSettings_issued by blast
  then show ?thesis by simp
qed

lemma linkAgent_wf: "wellFormed s \<Longrightarrow> wellFormed (snd (ipc_linkAgent rj getChildState agentId childId s))"
  by (simp add: ipc_linkAgent_def Let_def updateEpicPolicy_wf wf_objs_update
      split: option.splits)

lemma unlinkAgent_wf: "wellFormed s \<Longrightarrow> wellFormed (snd (ipc_unlinkAgent agentId s))"
  by (simp add: ipc_unlinkAgent_def wf_objs_update split: option.splits)

end
